theory Spec2Isabelle
  imports Complex_Main "HOL-Library.Multiset" "HOL-Library.Char_ord" "HOL-Library.List_Lexorder"
begin

section \<open>Text normalisation\<close>

text \<open>
  Python text is modelled as \<^typ>\<open>string\<close>, one \<^typ>\<open>char\<close> per code point, for the
  code points U+0000 to U+00FF.  \<open>isspace\<close> is \<^verbatim>\<open>str.isspace\<close> on that range (the
  characters removed by \<^verbatim>\<open>str.strip()\<close>), \<open>lower\<close> is \<^verbatim>\<open>str.lower()\<close> on it.
\<close>

definition isspace :: "char \<Rightarrow> bool" where
  "isspace c = (let n = (of_char c :: nat) in
     (9 \<le> n \<and> n \<le> 13) \<or> (28 \<le> n \<and> n \<le> 32) \<or> n = 133 \<or> n = 160)"

definition lower_char :: "char \<Rightarrow> char" where
  "lower_char c = (let n = (of_char c :: nat) in
     if (65 \<le> n \<and> n \<le> 90) \<or> (192 \<le> n \<and> n \<le> 222 \<and> n \<noteq> 215)
     then char_of (n + 32) else c)"

definition lower :: "string \<Rightarrow> string" where
  "lower s = map lower_char s"

definition strip :: "string \<Rightarrow> string" where
  "strip s = rev (dropWhile isspace (rev (dropWhile isspace s)))"

text \<open>
  \<^verbatim>\<open>s.split('\n')\<close>: the pieces between line feeds.  The result is never empty, so the
  first case of the inner \<open>case\<close> does not occur.
\<close>

fun split_nl :: "string \<Rightarrow> string list" where
  "split_nl [] = [[]]"
| "split_nl (c # cs) =
     (if c = CHR 0x0A then [] # split_nl cs
      else (case split_nl cs of [] \<Rightarrow> [[c]] | l # ls \<Rightarrow> (c # l) # ls))"

text \<open>\<^verbatim>\<open>' '.join(xs)\<close>.\<close>

fun join_space :: "string list \<Rightarrow> string" where
  "join_space [] = []"
| "join_space [x] = x"
| "join_space (x # y # ys) = x @ CHR '' '' # join_space (y # ys)"

definition normalize_line :: "string \<Rightarrow> string" where
  "normalize_line line = lower (strip line)"

text \<open>
  \<open>get_file_structure\<close> returns \<open>None\<close> only from its exception handler; on a string
  none of its operations raises, so the model always returns \<open>Some\<close>.
\<close>

definition get_file_structure :: "string \<Rightarrow> string option" where
  "get_file_structure file_content =
     (let lines = split_nl file_content;
          cleaned_lines = map normalize_line (filter (\<lambda>line. strip line \<noteq> []) lines)
      in Some (join_space cleaned_lines))"


section \<open>Uploaded files and their processing\<close>

text \<open>
  An uploaded file offers its name and its bytes (\<^verbatim>\<open>file.name\<close>, \<^verbatim>\<open>file.getvalue()\<close>).
  The codec \<^verbatim>\<open>bytes.decode("utf-8")\<close> is a parameter of the model: \<open>None\<close> stands for
  the exception it raises on bytes that are not UTF-8.
\<close>

type_synonym bytes = "char list"

record uploaded_file =
  name :: string
  getvalue :: bytes

text \<open>The calls of \<^verbatim>\<open>st.error\<close> and \<^verbatim>\<open>st.warning\<close>.\<close>

datatype message = DecodeError string | NoFilesWarning

text \<open>The \<^verbatim>\<open>ValueError\<close>s that the library calls of the program raise.\<close>

datatype error = EmptyVocabulary | InvalidParameter | NeighborsExceedSamples | InvalidComponents

text \<open>
  The loop of \<open>process_files\<close>: the messages shown, the files kept and their
  structures, all in input order.  A file is kept when it decodes and its structure is
  neither \<open>None\<close> nor the empty string (\<^verbatim>\<open>if structure:\<close>).
\<close>

fun process_loop ::
  "(bytes \<Rightarrow> string option) \<Rightarrow> uploaded_file list
     \<Rightarrow> message list \<times> uploaded_file list \<times> string list" where
  "process_loop decode [] = ([], [], [])"
| "process_loop decode (file # files) =
     (case process_loop decode files of (msgs, processed_files, structures) \<Rightarrow>
        (case decode (getvalue file) of
           None \<Rightarrow> (DecodeError (name file) # msgs, processed_files, structures)
         | Some content \<Rightarrow>
             (case get_file_structure content of
                None \<Rightarrow> (msgs, processed_files, structures)
              | Some structure \<Rightarrow>
                  if structure \<noteq> []
                  then (msgs, file # processed_files, structure # structures)
                  else (msgs, processed_files, structures))))"

section \<open>Vectorisation\<close>

text \<open>
  Modelled from the spec: the vectoriser is the library class \<^verbatim>\<open>TfidfVectorizer\<close>, used
  with \<^verbatim>\<open>analyzer='char', ngram_range=(3, 5)\<close>; its code is not among the sources.  The
  model follows section 4.2 of the specification, which is the library's default
  behaviour: character n-grams for n from 3 to 5 of the lower-cased text in which every
  run of two or more white-space characters is one space, the vocabulary in sorted
  order, raw counts as term frequency, the smoothed inverse document frequency
  \<open>ln ((1 + N) / (1 + df)) + 1\<close>, and rows scaled to Euclidean norm 1 where a row of
  norm 0 is left as it is.  An empty vocabulary is an error.  Weights are real numbers.
\<close>

function white_spaces_sub :: "string \<Rightarrow> string" where
  "white_spaces_sub [] = []"
| "white_spaces_sub [c] = [c]"
| "white_spaces_sub (c # d # cs) =
     (if isspace c \<and> isspace d
      then CHR '' '' # white_spaces_sub (dropWhile isspace cs)
      else c # white_spaces_sub (d # cs))"
  by pat_completeness auto
termination
  by (relation "measure length") (auto simp: le_imp_less_Suc length_dropWhile_le less_Suc_eq_le le_SucI)

definition char_ngrams :: "string \<Rightarrow> string list" where
  "char_ngrams text_document =
     (let t = white_spaces_sub text_document in
      concat (map (\<lambda>n. map (\<lambda>i. take n (drop i t)) [0..<length t - n + 1])
                  [3..<min 6 (length t + 1)]))"

definition analyze :: "string \<Rightarrow> string list" where
  "analyze doc = char_ngrams (lower doc)"

definition vocabulary :: "string list \<Rightarrow> string list" where
  "vocabulary docs = sort (remdups (concat (map analyze docs)))"

definition df :: "string list \<Rightarrow> string \<Rightarrow> nat" where
  "df docs t = length (filter (\<lambda>d. t \<in> set (analyze d)) docs)"

definition idf :: "string list \<Rightarrow> string \<Rightarrow> real" where
  "idf docs t = ln ((1 + real (length docs)) / (1 + real (df docs t))) + 1"

definition tfidf_row :: "string list \<Rightarrow> string \<Rightarrow> real list" where
  "tfidf_row docs d =
     map (\<lambda>t. real (count_list (analyze d) t) * idf docs t) (vocabulary docs)"

definition l2norm :: "real list \<Rightarrow> real" where
  "l2norm x = sqrt (\<Sum>a\<leftarrow>x. a * a)"

definition normalize_row :: "real list \<Rightarrow> real list" where
  "normalize_row x = (if l2norm x = 0 then x else map (\<lambda>a. a / l2norm x) x)"

text \<open>
  \<open>vectorize_structures\<close> returns the matrix, one row per text, and the fitted
  vectoriser, of which the model keeps the vocabulary.
\<close>

definition vectorize_structures :: "string list \<Rightarrow> error + (real list list \<times> string list)" where
  "vectorize_structures structures =
     (if vocabulary structures = [] then Inl EmptyVocabulary
      else Inr (map (\<lambda>d. normalize_row (tfidf_row structures d)) structures,
                vocabulary structures))"

section \<open>Processing the upload\<close>

text \<open>
  \<open>process_files\<close> returns the kept files, their names and their matrix, or nothing
  (with a warning) when no file is kept.  An error of the vectoriser is not caught.
\<close>

definition process_files ::
  "(bytes \<Rightarrow> string option) \<Rightarrow> uploaded_file list
     \<Rightarrow> message list \<times> (error + (uploaded_file list \<times> string list \<times> real list list) option)" where
  "process_files decode files =
     (case process_loop decode files of (msgs, processed_files, structures) \<Rightarrow>
        if processed_files = [] then (msgs @ [NoFilesWarning], Inr None)
        else (case vectorize_structures structures of
                Inl e \<Rightarrow> (msgs, Inl e)
              | Inr (X, _) \<Rightarrow> (msgs, Inr (Some (processed_files, map name processed_files, X)))))"


section \<open>Cosine distance and the k-distance curve\<close>

text \<open>
  Cosine distance is 1 minus cosine similarity.  Both \<open>plot_k_distance\<close> and the
  clustering ask the library for it with \<^verbatim>\<open>metric='cosine'\<close>, which computes it so: both
  rows are scaled to norm 1 (a row of norm 0 is left as it is, so its similarity to
  every row is 0), and the distance is 1 minus their dot product, clipped to the
  interval from 0 to 2.  Distances are real numbers.

  \<open>plot_k_distance\<close> passes the dense matrix \<^verbatim>\<open>X.toarray()\<close>; on that path the library
  sets the distance between a row of the matrix and itself to 0: \<open>cosine_distances\<close>.
  \<open>main\<close> passes the sparse matrix \<^verbatim>\<open>X\<close> to the clustering; on that path the diagonal is
  computed like every other entry, so a row of zeros is at distance 1 from itself:
  \<open>sparse_cosine_distances\<close>.
\<close>

definition dot :: "real list \<Rightarrow> real list \<Rightarrow> real" where
  "dot x y = (\<Sum>(a, b)\<leftarrow>zip x y. a * b)"

definition cosine_similarity :: "real list \<Rightarrow> real list \<Rightarrow> real" where
  "cosine_similarity x y = dot (normalize_row x) (normalize_row y)"

definition cosine_distances :: "real list list \<Rightarrow> nat \<Rightarrow> nat \<Rightarrow> real" where
  "cosine_distances X i j =
     (if i = j then 0 else min 2 (max 0 (1 - cosine_similarity (X ! i) (X ! j))))"

definition sparse_cosine_distances :: "real list list \<Rightarrow> nat \<Rightarrow> nat \<Rightarrow> real" where
  "sparse_cosine_distances X i j = min 2 (max 0 (1 - cosine_similarity (X ! i) (X ! j)))"

text \<open>
  The library call of \<open>plot_k_distance\<close>,
  \<^verbatim>\<open>NearestNeighbors(n_neighbors=k, metric='cosine').fit(X).kneighbors(X)\<close>, after the
  library's documentation: the query rows are passed explicitly, so every row of the
  corpus, the query row itself included, is a candidate neighbour; the call fails when
  \<open>k\<close> is below 1 or above the number of rows.  Each row of the result holds the \<open>k\<close>
  smallest distances in ascending order.
\<close>

definition kneighbors :: "real list list \<Rightarrow> int \<Rightarrow> error + real list list" where
  "kneighbors X n_neighbors =
     (if n_neighbors < 1 then Inl InvalidParameter
      else if int (length X) < n_neighbors then Inl NeighborsExceedSamples
      else Inr (map (\<lambda>i. take (nat n_neighbors)
                            (sort (map (cosine_distances X i) [0..<length X])))
                    [0..<length X]))"

text \<open>\<open>plot_k_distance\<close> returns the series it plots.\<close>

definition plot_k_distance :: "real list list \<Rightarrow> int \<Rightarrow> error + real list" where
  "plot_k_distance X min_samples =
     (case kneighbors X min_samples of
        Inl e \<Rightarrow> Inl e
      | Inr distances \<Rightarrow>
          Inr (sort (map (\<lambda>row. row ! (nat (min_samples - 1))) distances)))"

section \<open>Density clustering\<close>

text \<open>
  Modelled from the spec: the clusterer is the library class \<^verbatim>\<open>DBSCAN\<close>, called as
  \<^verbatim>\<open>DBSCAN(eps, min_samples, metric='cosine').fit_predict(X)\<close> on the sparse matrix; its
  code is not among the sources.  The model follows section 4.4 of the specification,
  which is the library's algorithm: the neighbourhood of a point holds the points
  within \<open>eps\<close> of it; a point is a core point when its neighbourhood has at least
  \<open>min_samples\<close> members; clusters are grown in input order from unlabelled core points
  by a depth-first walk with an explicit stack, a point keeps the first label it gets,
  labels count up from 0 and \<open>-1\<close> is noise.  The call fails unless \<open>eps\<close> is positive
  and \<open>min_samples\<close> at least 1.

  Section 4.4 counts a point among its own neighbours in every case.  The library
  decides it by the distance of the point to itself like for any other point: a row
  that is not zero is at distance 0 from itself and is in its neighbourhood, a row of
  zeros is at distance 1 from itself and is in its neighbourhood only for \<open>eps \<ge> 1\<close>.
  The model does as the library does.
\<close>

definition neighborhoods :: "real list list \<Rightarrow> real \<Rightarrow> nat list list" where
  "neighborhoods X eps =
     map (\<lambda>i. filter (\<lambda>j. sparse_cosine_distances X i j \<le> eps) [0..<length X])
         [0..<length X]"

text \<open>
  The walk from point \<open>i\<close> with the pending points \<open>stack\<close> (top first).  Every index
  that reaches it comes from a neighbourhood and is in range; the first test keeps the
  function total outside that.
\<close>

function dbscan_walk ::
  "bool list \<Rightarrow> nat list list \<Rightarrow> nat \<Rightarrow> nat \<Rightarrow> nat list \<Rightarrow> int list \<Rightarrow> int list" where
  "dbscan_walk is_core nbs label_num i stack labels =
     (if length labels \<le> i then labels
      else
        let labels1 = (if labels ! i = - 1 then labels[i := int label_num] else labels);
            stack1 = (if labels ! i = - 1 \<and> is_core ! i
                      then foldl (\<lambda>s v. if labels1 ! v = - 1 then v # s else s) stack (nbs ! i)
                      else stack)
        in (case stack1 of
              [] \<Rightarrow> labels1
            | v # rest \<Rightarrow> dbscan_walk is_core nbs label_num v rest labels1))"
  by pat_completeness auto
termination
proof (relation "inv_image (less_than <*lex*> less_than)
    (\<lambda>(is_core, nbs, label_num, i, stack, labels). (count_list labels (- 1), length stack))",
    goal_cases)
  case 1
  show ?case by (intro wf_inv_image wf_lex_prod wf_less_than)
next
  case (2 is_core nbs label_num i stack labels labels1 stack1 v rest)
  have dec: "count_list (xs[k := b]) a < count_list xs a"
    if "k < length xs" "xs ! k = a" "b \<noteq> a" for xs :: "int list" and k a b
    using that
  proof (induction xs arbitrary: k)
    case Nil
    then show ?case by simp
  next
    case (Cons x xs)
    then show ?case by (cases k) auto
  qed
  show ?case
  proof (cases "labels ! i = - 1")
    case True
    with 2 have "count_list labels1 (- 1) < count_list labels (- 1)"
      using dec[of i labels "- 1" "int label_num"] by simp
    then show ?thesis by simp
  next
    case False
    with 2 show ?thesis by auto
  qed
qed

fun dbscan_loop ::
  "bool list \<Rightarrow> nat list list \<Rightarrow> nat list \<Rightarrow> nat \<Rightarrow> int list \<Rightarrow> int list" where
  "dbscan_loop is_core nbs [] label_num labels = labels"
| "dbscan_loop is_core nbs (i # rest) label_num labels =
     (if labels ! i \<noteq> - 1 \<or> \<not> is_core ! i
      then dbscan_loop is_core nbs rest label_num labels
      else dbscan_loop is_core nbs rest (label_num + 1)
             (dbscan_walk is_core nbs label_num i [] labels))"

definition dbscan_inner :: "bool list \<Rightarrow> nat list list \<Rightarrow> int list \<Rightarrow> int list" where
  "dbscan_inner is_core nbs labels = dbscan_loop is_core nbs [0..<length labels] 0 labels"

definition fit_predict :: "real list list \<Rightarrow> real \<Rightarrow> int \<Rightarrow> error + int list" where
  "fit_predict X eps min_samples =
     (if eps \<le> 0 \<or> min_samples < 1 then Inl InvalidParameter
      else
        let nbs = neighborhoods X eps;
            is_core = map (\<lambda>nb. min_samples \<le> int (length nb)) nbs
        in Inr (dbscan_inner is_core nbs (replicate (length X) (- 1))))"


section \<open>Display, archive and the main function\<close>

text \<open>
  \<open>visualize_clusters\<close> projects the rows on two principal components; the library
  refuses that unless there are at least two rows and two columns.  The figure itself
  is not modelled.
\<close>

definition visualize_clusters :: "real list list \<Rightarrow> int list \<Rightarrow> string list \<Rightarrow> error + unit" where
  "visualize_clusters X labels file_names =
     (if min (length X) (length (hd X)) < 2 then Inl InvalidComponents else Inr ())"

text \<open>Decimal notation of an integer, as the f-string \<^verbatim>\<open>f"cluster_{label}"\<close> writes it.\<close>

fun str_nat :: "nat \<Rightarrow> string" where
  "str_nat n =
     (if n < 10 then [char_of (48 + n)] else str_nat (n div 10) @ [char_of (48 + n mod 10)])"

definition str_int :: "int \<Rightarrow> string" where
  "str_int i = (if i < 0 then CHR ''-'' # str_nat (nat (- i)) else str_nat (nat i))"

text \<open>\<^verbatim>\<open>os.path.join\<close> of a non-empty folder name and a file name, with POSIX paths.\<close>

definition path_join :: "string \<Rightarrow> string \<Rightarrow> string" where
  "path_join folder file_name =
     (if file_name \<noteq> [] \<and> hd file_name = CHR ''/'' then file_name
      else folder @ CHR ''/'' # file_name)"

text \<open>The folder of a label: \<^verbatim>\<open>f"cluster_{label}"\<close>.\<close>

definition folder_name :: "int \<Rightarrow> string" where
  "folder_name label = ''cluster_'' @ str_int label"

text \<open>
  \<open>save_clustered_files\<close> is modelled by its calls of \<^verbatim>\<open>writestr\<close>, in writing order: the
  path passed and the content.
\<close>

definition save_clustered_files :: "uploaded_file list \<Rightarrow> int list \<Rightarrow> (string \<times> bytes) list" where
  "save_clustered_files processed_files labels =
     map (\<lambda>(file, label). (path_join (folder_name label) (name file), getvalue file))
         (zip processed_files labels)"

text \<open>
  The archive that results: \<^verbatim>\<open>writestr\<close> stores an entry under the path it is given, cut
  at the first NUL character of the path.
\<close>

definition stored_name :: "string \<Rightarrow> string" where
  "stored_name path = takeWhile (\<lambda>c. c \<noteq> CHR 0x00) path"

definition zip_entries :: "(string \<times> bytes) list \<Rightarrow> (string \<times> bytes) list" where
  "zip_entries calls = map (\<lambda>(path, content). (stored_name path, content)) calls"

text \<open>The table of cluster sizes: one line per label, in ascending order of the label.\<close>

definition cluster_summary :: "int list \<Rightarrow> (int \<times> nat) list" where
  "cluster_summary labels = map (\<lambda>l. (l, count_list labels l)) (sort (remdups labels))"

text \<open>
  What one run of \<open>main\<close> shows: nothing without a usable upload, otherwise the
  k-distance curve, the labels, the table of cluster sizes and, when the save button is
  pressed, the archive.  The widget values are arguments.
\<close>

datatype outcome =
    Idle
  | Shown "real list" "int list" "(int \<times> nat) list" "(string \<times> bytes) list option"

definition main ::
  "(bytes \<Rightarrow> string option) \<Rightarrow> uploaded_file list \<Rightarrow> int \<Rightarrow> real \<Rightarrow> int \<Rightarrow> bool
     \<Rightarrow> message list \<times> (error + outcome)" where
  "main decode uploaded_files min_samples_elbow eps min_samples_dbscan save =
     (if uploaded_files = [] then ([], Inr Idle)
      else
        (case process_files decode uploaded_files of
           (msgs, Inl e) \<Rightarrow> (msgs, Inl e)
         | (msgs, Inr None) \<Rightarrow> (msgs, Inr Idle)
         | (msgs, Inr (Some (processed_files, file_names, X))) \<Rightarrow>
             (case plot_k_distance X min_samples_elbow of
                Inl e \<Rightarrow> (msgs, Inl e)
              | Inr curve \<Rightarrow>
                  (case fit_predict X eps min_samples_dbscan of
                     Inl e \<Rightarrow> (msgs, Inl e)
                   | Inr labels \<Rightarrow>
                       (case visualize_clusters X labels file_names of
                          Inl e \<Rightarrow> (msgs, Inl e)
                        | Inr _ \<Rightarrow>
                            (msgs, Inr (Shown curve labels (cluster_summary labels)
                               (if save then Some (save_clustered_files processed_files labels)
                                else None))))))))"


declare white_spaces_sub.simps [simp del]
declare dbscan_walk.simps [simp del]
declare str_nat.simps [simp del]

section \<open>Notions used in the statements and proofs\<close>

text \<open>A text without white space at either end: the fixed points of \<open>strip\<close>.\<close>

definition trimmed :: "string \<Rightarrow> bool" where
  "trimmed s = (s = [] \<or> (\<not> isspace (hd s) \<and> \<not> isspace (last s)))"

text \<open>The test that \<open>process_files\<close> applies to a file, and the structure of a kept file.\<close>

definition kept :: "(bytes \<Rightarrow> string option) \<Rightarrow> uploaded_file \<Rightarrow> bool" where
  "kept decode file =
     (case decode (getvalue file) of
        None \<Rightarrow> False
      | Some content \<Rightarrow>
          (case get_file_structure content of None \<Rightarrow> False | Some structure \<Rightarrow> structure \<noteq> []))"

definition structure_of :: "(bytes \<Rightarrow> string option) \<Rightarrow> uploaded_file \<Rightarrow> string" where
  "structure_of decode file =
     (case decode (getvalue file) of
        None \<Rightarrow> []
      | Some content \<Rightarrow>
          (case get_file_structure content of None \<Rightarrow> [] | Some structure \<Rightarrow> structure))"

text \<open>The two updates that one round of the cluster walk makes, to the labels and to the stack.\<close>

definition walk_labels :: "nat \<Rightarrow> nat \<Rightarrow> int list \<Rightarrow> int list" where
  "walk_labels label_num i labels =
     (if labels ! i = - 1 then labels[i := int label_num] else labels)"

definition walk_stack ::
  "bool list \<Rightarrow> nat list list \<Rightarrow> nat \<Rightarrow> nat \<Rightarrow> nat list \<Rightarrow> int list \<Rightarrow> nat list" where
  "walk_stack is_core nbs label_num i stack labels =
     (if labels ! i = - 1 \<and> is_core ! i
      then foldl (\<lambda>s v. if walk_labels label_num i labels ! v = - 1 then v # s else s)
             stack (nbs ! i)
      else stack)"

text \<open>The number that a string of decimal digits denotes.\<close>

definition digits_value :: "string \<Rightarrow> nat" where
  "digits_value s = foldl (\<lambda>a c. 10 * a + (of_char c - 48)) 0 s"

text \<open>The entries of an archive that lie in a folder: the group of that folder.\<close>

definition folder_of :: "string \<Rightarrow> string" where
  "folder_of path = takeWhile (\<lambda>c. c \<noteq> CHR ''/'') path"

definition folder_entries :: "(string \<times> bytes) list \<Rightarrow> string \<Rightarrow> (string \<times> bytes) list" where
  "folder_entries archive folder = filter (\<lambda>(path, content). folder_of path = folder) archive"

text \<open>A decoder for the examples: it accepts ASCII bytes, on which UTF-8 is the identity.\<close>

definition decode_ascii :: "bytes \<Rightarrow> string option" where
  "decode_ascii b = (if list_all (\<lambda>c. (of_char c :: nat) < 128) b then Some b else None)"

section \<open>Normalisation is idempotent\<close>

subsection \<open>Characters and lines\<close>

lemma of_char_lower_char:
  "(of_char (lower_char c) :: nat) =
     (let n = (of_char c :: nat) in
      if (65 \<le> n \<and> n \<le> 90) \<or> (192 \<le> n \<and> n \<le> 222 \<and> n \<noteq> 215) then n + 32 else n)"
  by (auto simp: lower_char_def Let_def)

lemma lower_char_idem: "lower_char (lower_char c) = lower_char c"
proof -
  have "(of_char (lower_char (lower_char c)) :: nat) = of_char (lower_char c)"
    by (simp add: of_char_lower_char Let_def)
  then show ?thesis by simp
qed

lemma isspace_lower_char: "isspace (lower_char c) = isspace c"
  unfolding isspace_def of_char_lower_char by (auto simp: Let_def)

lemma lower_char_nl: "lower_char c = CHR 0x0A \<longleftrightarrow> c = CHR 0x0A"
proof -
  have "lower_char c = CHR 0x0A \<longleftrightarrow> (of_char (lower_char c) :: nat) = of_char (CHR 0x0A)"
    by (simp only: of_char_eq_iff)
  also have "\<dots> \<longleftrightarrow> (of_char c :: nat) = of_char (CHR 0x0A)"
    by (auto simp: of_char_lower_char Let_def)
  also have "\<dots> \<longleftrightarrow> c = CHR 0x0A"
    by (simp only: of_char_eq_iff)
  finally show ?thesis .
qed

lemma lower_char_space: "lower_char CHR '' '' = CHR '' ''"
  by (simp add: lower_char_def)

lemma lower_idem: "lower (lower s) = lower s"
  by (simp add: lower_def lower_char_idem)

lemma lower_nonempty: "lower s \<noteq> [] \<longleftrightarrow> s \<noteq> []"
  by (simp add: lower_def)

lemma length_lower: "length (lower s) = length s"
  by (simp add: lower_def)

lemma lower_no_nl: "CHR 0x0A \<notin> set s \<Longrightarrow> CHR 0x0A \<notin> set (lower s)"
proof
  assume a: "CHR 0x0A \<notin> set s" and "CHR 0x0A \<in> set (lower s)"
  then obtain c where "c \<in> set s" "lower_char c = CHR 0x0A" by (auto simp: lower_def)
  with a show False by (simp add: lower_char_nl)
qed

lemma split_nl_nonempty: "split_nl s \<noteq> []"
  by (induction s) (auto split: list.splits)

lemma split_nl_no_nl: "CHR 0x0A \<notin> set s \<Longrightarrow> split_nl s = [s]"
  by (induction s) auto

lemma split_nl_lines: "l \<in> set (split_nl s) \<Longrightarrow> CHR 0x0A \<notin> set l"
proof (induction s arbitrary: l)
  case Nil
  then show ?case by simp
next
  case (Cons c cs)
  obtain h t where ht: "split_nl cs = h # t"
    using split_nl_nonempty by (cases "split_nl cs") auto
  show ?case
  proof (cases "c = CHR 0x0A")
    case True
    with Cons show ?thesis by auto
  next
    case False
    with Cons.prems ht have "l = c # h \<or> l \<in> set t" by auto
    with Cons.IH ht False show ?thesis by auto
  qed
qed

subsection \<open>Stripping\<close>

lemma strip_trimmed: "trimmed s \<Longrightarrow> strip s = s"
  by (cases s) (auto simp: trimmed_def strip_def dropWhile_append3 last_rev hd_rev
      intro!: dropWhile_eq_self_iff[THEN iffD2] simp: rev_swap)

lemma trimmed_strip: "trimmed (strip s)"
proof -
  define a where "a = dropWhile isspace s"
  define b where "b = dropWhile isspace (rev a)"
  have st: "strip s = rev b" by (simp add: strip_def a_def b_def)
  show ?thesis
  proof (cases "b = []")
    case True
    with st show ?thesis by (simp add: trimmed_def)
  next
    case False
    then have hb: "\<not> isspace (hd b)" unfolding b_def by (rule hd_dropWhile)
    from False have lastb: "last (rev b) = hd b" by (simp add: last_rev)
    from False have ane: "a \<noteq> []" by (auto simp: b_def)
    then have ha: "\<not> isspace (hd a)" unfolding a_def by (rule hd_dropWhile)
    have "rev a = takeWhile isspace (rev a) @ b" by (simp add: b_def)
    then have "rev (rev a) = rev (takeWhile isspace (rev a) @ b)" by simp
    then have "a = rev b @ rev (takeWhile isspace (rev a))" by simp
    with False have "hd a = hd (rev b)" by (metis hd_append2 rev_is_Nil_conv)
    with ha hb lastb st False show ?thesis by (simp add: trimmed_def)
  qed
qed

lemma trimmed_lower: "trimmed s \<Longrightarrow> trimmed (lower s)"
  by (cases s) (auto simp: trimmed_def lower_def isspace_lower_char hd_map last_map)

lemma strip_set: "set (strip s) \<subseteq> set s"
  unfolding strip_def by (metis set_dropWhileD set_rev subsetI)

subsection \<open>Joining\<close>

lemma lower_join_space: "lower (join_space ls) = join_space (map lower ls)"
  by (induction ls rule: join_space.induct) (simp_all add: lower_def lower_char_space)

lemma join_space_no_nl:
  "\<forall>l \<in> set ls. CHR 0x0A \<notin> set l \<Longrightarrow> CHR 0x0A \<notin> set (join_space ls)"
  by (induction ls rule: join_space.induct) auto

lemma join_space_trimmed:
  "\<forall>l \<in> set ls. l \<noteq> [] \<and> trimmed l \<Longrightarrow> ls \<noteq> [] \<Longrightarrow>
     join_space ls \<noteq> [] \<and> trimmed (join_space ls)"
proof (induction ls rule: join_space.induct)
  case 1
  then show ?case by simp
next
  case (2 x)
  then show ?case by simp
next
  case (3 x y ys)
  then have IH: "join_space (y # ys) \<noteq> []" "trimmed (join_space (y # ys))" by auto
  from 3 have x: "x \<noteq> []" "trimmed x" by auto
  from x IH show ?case by (auto simp: trimmed_def)
qed

lemma join_space_eq_Nil: "\<forall>l \<in> set ls. l \<noteq> [] \<Longrightarrow> join_space ls = [] \<longleftrightarrow> ls = []"
  by (induction ls rule: join_space.induct) auto

subsection \<open>The structure of a file\<close>

lemma get_file_structure_fixed:
  assumes "get_file_structure x = Some y"
  shows "get_file_structure y = Some y"
proof -
  define ls where "ls = map normalize_line (filter (\<lambda>line. strip line \<noteq> []) (split_nl x))"
  have y: "y = join_space ls"
    using assms by (simp add: get_file_structure_def ls_def Let_def)
  have el: "\<forall>l \<in> set ls. l \<noteq> [] \<and> trimmed l \<and> CHR 0x0A \<notin> set l \<and> lower l = l"
  proof
    fix l assume "l \<in> set ls"
    then obtain line where line: "line \<in> set (split_nl x)" "strip line \<noteq> []"
      "l = lower (strip line)"
      by (auto simp: ls_def normalize_line_def)
    from line(1) have "CHR 0x0A \<notin> set line" by (rule split_nl_lines)
    with strip_set have "CHR 0x0A \<notin> set (strip line)" by blast
    with line show "l \<noteq> [] \<and> trimmed l \<and> CHR 0x0A \<notin> set l \<and> lower l = l"
      by (simp add: lower_nonempty trimmed_lower trimmed_strip lower_no_nl lower_idem)
  qed
  show ?thesis
  proof (cases "ls = []")
    case True
    with y show ?thesis by (simp add: get_file_structure_def strip_def)
  next
    case False
    with el have ne: "y \<noteq> []" and tr: "trimmed y"
      using join_space_trimmed[of ls] y by auto
    from el have nl: "CHR 0x0A \<notin> set y"
      unfolding y by (intro join_space_no_nl) auto
    from el have "map lower ls = ls" by (simp add: map_idI)
    then have lw: "lower y = y" by (simp add: y lower_join_space)
    from nl have "split_nl y = [y]" by (rule split_nl_no_nl)
    with ne tr lw show ?thesis
      by (simp add: get_file_structure_def normalize_line_def strip_trimmed)
  qed
qed

lemma get_file_structure_total: "\<exists>y. get_file_structure x = Some y"
  by (simp add: get_file_structure_def Let_def)

lemma get_file_structure_empty_iff:
  "get_file_structure x = Some [] \<longleftrightarrow> (\<forall>line \<in> set (split_nl x). strip line = [])"
proof -
  define ls where "ls = map normalize_line (filter (\<lambda>line. strip line \<noteq> []) (split_nl x))"
  have ne: "\<forall>l \<in> set ls. l \<noteq> []"
    by (auto simp: ls_def normalize_line_def lower_nonempty)
  have "get_file_structure x = Some [] \<longleftrightarrow> join_space ls = []"
    by (simp add: get_file_structure_def ls_def Let_def)
  also have "\<dots> \<longleftrightarrow> ls = []" using ne by (rule join_space_eq_Nil)
  also have "\<dots> \<longleftrightarrow> (\<forall>line \<in> set (split_nl x). strip line = [])"
    by (auto simp: ls_def filter_empty_conv)
  finally show ?thesis .
qed

text \<open>
  Claim C9: normalisation is idempotent.  \<open>get_file_structure\<close> returns a text for
  every input text, and applied to a text it has returned it returns that text again.
\<close>

theorem normalization_idempotent:
  "\<exists>y. get_file_structure x = Some y \<and> get_file_structure y = Some y"
  using get_file_structure_fixed[of x] get_file_structure_total[of x] by auto

theorem normalization_idempotent_witness:
  "get_file_structure ''  Hello World \<newline>\<newline>  Foo\<newline>'' = Some ''hello world foo'' \<and>
   get_file_structure ''hello world foo'' = Some ''hello world foo''"
proof -
  have e: "get_file_structure ''  Hello World \<newline>\<newline>  Foo\<newline>'' = Some ''hello world foo''"
    by code_simp
  from normalization_idempotent[of "''  Hello World \<newline>\<newline>  Foo\<newline>''"] e
  show ?thesis by simp
qed

section \<open>A worked example\<close>

lemma ex_analyze:
  "analyze ''abc'' = [''abc'']" "analyze ''abd'' = [''abd'']" "analyze ''ab'' = []"
  by code_simp+

lemma ex_structures:
  "get_file_structure ''Abc'' = Some ''abc''"
  "get_file_structure ''abc\<newline>'' = Some ''abc''"
  "get_file_structure ''abd'' = Some ''abd''"
  "get_file_structure ''ab'' = Some ''ab''"
  "get_file_structure '' \<newline>'' = Some []"
  by code_simp+

lemma ex_decode:
  "decode_ascii ''Abc'' = Some ''Abc''"
  "decode_ascii ''abc\<newline>'' = Some ''abc\<newline>''"
  "decode_ascii ''abd'' = Some ''abd''"
  "decode_ascii ''ab'' = Some ''ab''"
  "decode_ascii '' \<newline>'' = Some '' \<newline>''"
  "decode_ascii [CHR 0xFF] = None"
  by code_simp+

lemma ex_vocabulary:
  "vocabulary [''abc'', ''abc'', ''abd''] = [''abc'', ''abd'']"
  "vocabulary [''ab'', ''abc''] = [''abc'']"
  by code_simp+

lemma ex_idf_pos: "0 < ln (4 / 3 :: real) + 1" "0 < ln (2 :: real) + 1" "0 < ln (3 / 2 :: real) + 1"
  by (simp_all add: add_pos_pos)

lemma ex_normalize_row:
  "0 < u \<Longrightarrow> normalize_row [u, 0] = [1, 0]"
  "0 < u \<Longrightarrow> normalize_row [0, u] = [0, 1]"
  "0 < u \<Longrightarrow> normalize_row [u] = [1]"
  "normalize_row [0] = [0]"
  "normalize_row [1, 0] = [1, 0]"
  "normalize_row [0, 1] = [0, 1]"
  "normalize_row [1] = [1]"
  by (simp_all add: normalize_row_def l2norm_def)

lemma ex_tfidf:
  "tfidf_row [''abc'', ''abc'', ''abd''] ''abc'' = [ln (4 / 3) + 1, 0]"
  "tfidf_row [''abc'', ''abc'', ''abd''] ''abd'' = [0, ln 2 + 1]"
  by (simp_all add: tfidf_row_def ex_vocabulary ex_analyze idf_def df_def)

lemma ex_vectorize:
  "vectorize_structures [''abc'', ''abc'', ''abd'']
     = Inr ([[1, 0], [1, 0], [0, 1]], [''abc'', ''abd''])"
  by (simp add: vectorize_structures_def ex_vocabulary ex_tfidf ex_normalize_row ex_idf_pos)

lemma ex_tfidf_short:
  "tfidf_row [''ab'', ''abc''] ''ab'' = [0]"
  "tfidf_row [''ab'', ''abc''] ''abc'' = [ln (3 / 2) + 1]"
  by (simp_all add: tfidf_row_def ex_vocabulary ex_analyze idf_def df_def)

lemma ex_vectorize_short:
  "vectorize_structures [''ab'', ''abc''] = Inr ([[0], [1]], [''abc''])"
  by (simp add: vectorize_structures_def ex_vocabulary ex_tfidf_short ex_normalize_row ex_idf_pos)


lemma ex_similarity:
  "cosine_similarity [1, 0] [1, 0] = 1" "cosine_similarity [1, 0] [0, 1] = 0"
  "cosine_similarity [0, 1] [1, 0] = 0" "cosine_similarity [0, 1] [0, 1] = 1"
  "cosine_similarity [1] [1] = 1" "cosine_similarity [1] [0] = 0"
  "cosine_similarity [0] [1] = 0" "cosine_similarity [0] [0] = 0"
  "cosine_similarity [0, 0] [0, 0] = 0" "cosine_similarity [0, 0] [1, 0] = 0"
  "cosine_similarity [0, 0] [0, 1] = 0" "cosine_similarity [1, 0] [0, 0] = 0"
  "cosine_similarity [0, 1] [0, 0] = 0"
  by (simp_all add: cosine_similarity_def dot_def normalize_row_def l2norm_def)

lemma ex_distances:
  "cosine_distances [[1, 0], [1, 0], [0, 1]] 0 0 = 0"
  "cosine_distances [[1, 0], [1, 0], [0, 1]] 0 (Suc 0) = 0"
  "cosine_distances [[1, 0], [1, 0], [0, 1]] 0 (Suc (Suc 0)) = 1"
  "cosine_distances [[1, 0], [1, 0], [0, 1]] (Suc 0) 0 = 0"
  "cosine_distances [[1, 0], [1, 0], [0, 1]] (Suc 0) (Suc 0) = 0"
  "cosine_distances [[1, 0], [1, 0], [0, 1]] (Suc 0) (Suc (Suc 0)) = 1"
  "cosine_distances [[1, 0], [1, 0], [0, 1]] (Suc (Suc 0)) 0 = 1"
  "cosine_distances [[1, 0], [1, 0], [0, 1]] (Suc (Suc 0)) (Suc 0) = 1"
  "cosine_distances [[1, 0], [1, 0], [0, 1]] (Suc (Suc 0)) (Suc (Suc 0)) = 0"
  by (simp_all add: cosine_distances_def cosine_similarity_def dot_def ex_normalize_row)

lemma ex_k_distance:
  "plot_k_distance [[1, 0], [1, 0], [0, 1]] 1 = Inr [0, 0, 0]"
  "plot_k_distance [[1, 0], [1, 0], [0, 1]] 2 = Inr [0, 0, 1]"
  "plot_k_distance [[1, 0], [1, 0], [0, 1]] 3 = Inr [1, 1, 1]"
  "plot_k_distance [[1, 0], [1, 0], [0, 1]] 4 = Inl NeighborsExceedSamples"
  by (simp_all add: plot_k_distance_def kneighbors_def ex_distances)

lemma ex_neighborhoods:
  "neighborhoods [[1, 0], [1, 0], [0, 1]] (1 / 2) = [[0, 1], [0, 1], [2]]"
  "neighborhoods [[1, 0], [1, 0], [0, 1]] 1 = [[0, 1, 2], [0, 1, 2], [0, 1, 2]]"
  by (simp_all add: neighborhoods_def sparse_cosine_distances_def ex_similarity)

lemma ex_dbscan_inner:
  "dbscan_inner [True, True, True] [[0, Suc 0], [0, Suc 0], [2]] [- 1, - 1, - 1] = [0, 0, 1]"
  "dbscan_inner [True, True, False] [[0, Suc 0], [0, Suc 0], [2]] [- 1, - 1, - 1] = [0, 0, - 1]"
  by code_simp+

lemma ex_fit_predict:
  "fit_predict [[1, 0], [1, 0], [0, 1]] (1 / 2) 1 = Inr [0, 0, 1]"
  "fit_predict [[1, 0], [1, 0], [0, 1]] (1 / 2) 2 = Inr [0, 0, - 1]"
  "fit_predict [[1, 0], [1, 0], [0, 1]] 0 1 = Inl InvalidParameter"
  by (simp_all add: fit_predict_def ex_neighborhoods ex_dbscan_inner Let_def)

section \<open>The files that are processed\<close>

lemma process_loop_eq:
  "process_loop decode files =
     (map (\<lambda>f. DecodeError (name f)) (filter (\<lambda>f. decode (getvalue f) = None) files),
      filter (kept decode) files,
      map (structure_of decode) (filter (kept decode) files))"
  by (induction files) (auto simp: kept_def structure_of_def split: option.splits)

lemma process_loop_append:
  "process_loop decode (fs1 @ fs2) =
     (fst (process_loop decode fs1) @ fst (process_loop decode fs2),
      fst (snd (process_loop decode fs1)) @ fst (snd (process_loop decode fs2)),
      snd (snd (process_loop decode fs1)) @ snd (snd (process_loop decode fs2)))"
  by (simp add: process_loop_eq)

lemma process_files_eq:
  "process_files decode files =
     (let msgs = map (\<lambda>f. DecodeError (name f)) (filter (\<lambda>f. decode (getvalue f) = None) files);
          pf = filter (kept decode) files;
          ss = map (structure_of decode) pf
      in if pf = [] then (msgs @ [NoFilesWarning], Inr None)
         else if vocabulary ss = [] then (msgs, Inl EmptyVocabulary)
         else (msgs, Inr (Some (pf, map name pf, map (\<lambda>d. normalize_row (tfidf_row ss d)) ss))))"
  by (simp add: process_files_def process_loop_eq vectorize_structures_def Let_def)

lemma ex_process_files:
  "process_files decode_ascii
     [\<lparr>name = ''x.txt'', getvalue = [CHR 0xFF]\<rparr>, \<lparr>name = ''e.txt'', getvalue = '' \<newline>''\<rparr>,
      \<lparr>name = ''a.txt'', getvalue = ''Abc''\<rparr>, \<lparr>name = ''b.txt'', getvalue = ''abc\<newline>''\<rparr>,
      \<lparr>name = ''c.txt'', getvalue = ''abd''\<rparr>]
   = ([DecodeError ''x.txt''],
      Inr (Some ([\<lparr>name = ''a.txt'', getvalue = ''Abc''\<rparr>, \<lparr>name = ''b.txt'', getvalue = ''abc\<newline>''\<rparr>,
                  \<lparr>name = ''c.txt'', getvalue = ''abd''\<rparr>],
                 [''a.txt'', ''b.txt'', ''c.txt''],
                 [[1, 0], [1, 0], [0, 1]])))"
  by (simp add: process_files_def ex_decode ex_structures ex_vectorize)

lemma ex_visualize:
  "visualize_clusters [[1, 0], [1, 0], [0, 1]] labels file_names = Inr ()"
  by (simp add: visualize_clusters_def)

lemma ex_summary: "cluster_summary [0, 0, 1] = [(0, 2), (1, 1)]"
  by code_simp

lemma ex_archive:
  "save_clustered_files
     [\<lparr>name = ''a.txt'', getvalue = ''Abc''\<rparr>, \<lparr>name = ''b.txt'', getvalue = ''abc\<newline>''\<rparr>,
      \<lparr>name = ''c.txt'', getvalue = ''abd''\<rparr>] [0, 0, 1]
   = [(''cluster_0/a.txt'', ''Abc''), (''cluster_0/b.txt'', ''abc\<newline>''), (''cluster_1/c.txt'', ''abd'')]"
  by code_simp

lemma ex_main:
  "main decode_ascii
     [\<lparr>name = ''x.txt'', getvalue = [CHR 0xFF]\<rparr>, \<lparr>name = ''e.txt'', getvalue = '' \<newline>''\<rparr>,
      \<lparr>name = ''a.txt'', getvalue = ''Abc''\<rparr>, \<lparr>name = ''b.txt'', getvalue = ''abc\<newline>''\<rparr>,
      \<lparr>name = ''c.txt'', getvalue = ''abd''\<rparr>] 2 (1 / 2) 1 True
   = ([DecodeError ''x.txt''],
      Inr (Shown [0, 0, 1] [0, 0, 1] [(0, 2), (1, 1)]
        (Some [(''cluster_0/a.txt'', ''Abc''), (''cluster_0/b.txt'', ''abc\<newline>''),
               (''cluster_1/c.txt'', ''abd'')])))"
  unfolding main_def ex_process_files
  by (simp add: ex_k_distance ex_fit_predict ex_visualize ex_summary ex_archive)

section \<open>The cluster walk\<close>

lemma push_set:
  "set (foldl (\<lambda>s v. if P v then v # s else s) stack vs) \<subseteq> set stack \<union> set vs"
proof (induction vs arbitrary: stack)
  case Nil
  then show ?case by simp
next
  case (Cons a vs)
  show ?case
  proof (cases "P a")
    case True
    with Cons[of "a # stack"] show ?thesis by auto
  next
    case False
    with Cons[of stack] show ?thesis by auto
  qed
qed


lemma walk_unfold:
  "dbscan_walk is_core nbs c i stack labels =
     (if length labels \<le> i then labels
      else (case walk_stack is_core nbs c i stack labels of
              [] \<Rightarrow> walk_labels c i labels
            | v # rest \<Rightarrow> dbscan_walk is_core nbs c v rest (walk_labels c i labels)))"
  by (subst dbscan_walk.simps) (simp only: walk_labels_def walk_stack_def Let_def)

lemma walk_induct [case_names round]:
  assumes "\<And>is_core nbs c i stack labels.
    (\<And>v rest. \<not> length labels \<le> i \<Longrightarrow> walk_stack is_core nbs c i stack labels = v # rest
        \<Longrightarrow> P is_core nbs c v rest (walk_labels c i labels))
    \<Longrightarrow> P is_core nbs c i stack labels"
  shows "P is_core nbs c i stack labels"
proof (induction is_core nbs c i stack labels rule: dbscan_walk.induct)
  case (1 is_core nbs c i stack labels)
  show ?case
  proof (rule assms)
    fix v rest
    assume a: "\<not> length labels \<le> i" "walk_stack is_core nbs c i stack labels = v # rest"
    show "P is_core nbs c v rest (walk_labels c i labels)"
      using "1.IH"[OF a(1) refl refl, of v rest] a(2)
      unfolding walk_labels_def walk_stack_def by blast
  qed
qed

lemma walk_labels_length: "length (walk_labels c i labels) = length labels"
  by (simp add: walk_labels_def)

lemma walk_labels_entry:
  "j < length labels \<Longrightarrow>
     walk_labels c i labels ! j = labels ! j \<or>
     (labels ! j = - 1 \<and> walk_labels c i labels ! j = int c)"
  by (cases "j = i") (auto simp: walk_labels_def)

text \<open>A walk keeps the length; every entry stays, or was noise and gets the walk's label.\<close>

lemma walk_entries:
  "length (dbscan_walk is_core nbs c i stack labels) = length labels \<and>
   (\<forall>j < length labels.
      dbscan_walk is_core nbs c i stack labels ! j = labels ! j \<or>
      (labels ! j = - 1 \<and> dbscan_walk is_core nbs c i stack labels ! j = int c))"
proof (induction is_core nbs c i stack labels rule: walk_induct)
  case (round is_core nbs c i stack labels)
  show ?case
  proof (cases "length labels \<le> i")
    case True
    then show ?thesis by (simp add: walk_unfold)
  next
    case False
    show ?thesis
    proof (cases "walk_stack is_core nbs c i stack labels")
      case Nil
      with False have "dbscan_walk is_core nbs c i stack labels = walk_labels c i labels"
        by (simp add: walk_unfold)
      then show ?thesis using walk_labels_entry[of _ labels c i] by (simp add: walk_labels_length)
    next
      case (Cons v rest)
      with False have r: "dbscan_walk is_core nbs c i stack labels
          = dbscan_walk is_core nbs c v rest (walk_labels c i labels)"
        by (simp add: walk_unfold)
      note IH = round[OF False Cons]
      show ?thesis
      proof (intro conjI allI impI)
        show "length (dbscan_walk is_core nbs c i stack labels) = length labels"
          using IH by (simp add: r walk_labels_length)
      next
        fix j assume j: "j < length labels"
        from IH j have "dbscan_walk is_core nbs c v rest (walk_labels c i labels) ! j
              = walk_labels c i labels ! j \<or>
            (walk_labels c i labels ! j = - 1 \<and>
             dbscan_walk is_core nbs c v rest (walk_labels c i labels) ! j = int c)"
          by (simp add: walk_labels_length)
        with walk_labels_entry[OF j, of c i]
        show "dbscan_walk is_core nbs c i stack labels ! j = labels ! j \<or>
          (labels ! j = - 1 \<and> dbscan_walk is_core nbs c i stack labels ! j = int c)"
          unfolding r by auto
      qed
    qed
  qed
qed

lemma walk_length: "length (dbscan_walk is_core nbs c i stack labels) = length labels"
  using walk_entries by blast

lemma walk_frame:
  "j < length labels \<Longrightarrow> labels ! j \<noteq> - 1 \<Longrightarrow>
     dbscan_walk is_core nbs c i stack labels ! j = labels ! j"
  using walk_entries[of is_core nbs c i stack labels] by auto

lemma walk_seed:
  assumes "i < length labels" "labels ! i = - 1"
  shows "dbscan_walk is_core nbs c i stack labels ! i = int c"
proof -
  have w: "walk_labels c i labels ! i = int c" "length (walk_labels c i labels) = length labels"
    using assms by (simp_all add: walk_labels_def)
  show ?thesis
  proof (cases "walk_stack is_core nbs c i stack labels")
    case Nil
    with assms w show ?thesis by (simp add: walk_unfold)
  next
    case (Cons v rest)
    with assms have "dbscan_walk is_core nbs c i stack labels
        = dbscan_walk is_core nbs c v rest (walk_labels c i labels)"
      by (simp add: walk_unfold)
    moreover have "dbscan_walk is_core nbs c v rest (walk_labels c i labels) ! i
        = walk_labels c i labels ! i"
      using assms w by (intro walk_frame) simp_all
    ultimately show ?thesis using w by simp
  qed
qed


text \<open>A point outside every neighbourhood that the walk can read is not touched by it.\<close>

lemma walk_isolated:
  "z \<noteq> i \<Longrightarrow> z \<notin> set stack \<Longrightarrow>
   \<forall>j < length labels. j \<noteq> z \<longrightarrow> z \<notin> set (nbs ! j) \<Longrightarrow>
   dbscan_walk is_core nbs c i stack labels ! z = labels ! z"
proof (induction is_core nbs c i stack labels rule: walk_induct)
  case (round is_core nbs c i stack labels)
  show ?case
  proof (cases "length labels \<le> i")
    case True
    then show ?thesis by (simp add: walk_unfold)
  next
    case False
    have wl: "walk_labels c i labels ! z = labels ! z"
      using round.prems(1) by (simp add: walk_labels_def)
    from False round.prems have "z \<notin> set (nbs ! i)" by simp
    with round.prems(2) push_set[of "\<lambda>v. walk_labels c i labels ! v = - 1" stack "nbs ! i"]
    have ws: "z \<notin> set (walk_stack is_core nbs c i stack labels)"
      by (auto simp: walk_stack_def)
    show ?thesis
    proof (cases "walk_stack is_core nbs c i stack labels")
      case Nil
      with False wl show ?thesis by (simp add: walk_unfold)
    next
      case (Cons v rest)
      with False have r: "dbscan_walk is_core nbs c i stack labels
          = dbscan_walk is_core nbs c v rest (walk_labels c i labels)"
        by (simp add: walk_unfold)
      from ws Cons have "z \<noteq> v" "z \<notin> set rest" by auto
      with round.IH[OF False Cons] round.prems(3) wl show ?thesis
        by (simp add: r walk_labels_length)
    qed
  qed
qed


section \<open>The loop over the points\<close>

lemma loop_entries:
  "length (dbscan_loop is_core nbs todo c labels) = length labels \<and>
   (\<forall>j < length labels.
      dbscan_loop is_core nbs todo c labels ! j = labels ! j \<or>
      (labels ! j = - 1 \<and> int c \<le> dbscan_loop is_core nbs todo c labels ! j))"
proof (induction todo arbitrary: c labels)
  case Nil
  then show ?case by simp
next
  case (Cons i rest)
  show ?case
  proof (cases "labels ! i \<noteq> - 1 \<or> \<not> is_core ! i")
    case True
    with Cons[of c labels] show ?thesis by simp
  next
    case False
    define labels1 where "labels1 = dbscan_walk is_core nbs c i [] labels"
    have r: "dbscan_loop is_core nbs (i # rest) c labels
        = dbscan_loop is_core nbs rest (c + 1) labels1"
      using False by (simp add: labels1_def)
    have l1: "length labels1 = length labels" by (simp add: labels1_def walk_length)
    have e1: "labels1 ! j = labels ! j \<or> (labels ! j = - 1 \<and> labels1 ! j = int c)"
      if "j < length labels" for j
      using that walk_entries[of is_core nbs c i "[]" labels] by (simp add: labels1_def)
    note IH = Cons[of "c + 1" labels1]
    show ?thesis
    proof (intro conjI allI impI)
      show "length (dbscan_loop is_core nbs (i # rest) c labels) = length labels"
        unfolding r using IH l1 by simp
    next
      fix j assume j: "j < length labels"
      with IH l1 have "dbscan_loop is_core nbs rest (c + 1) labels1 ! j = labels1 ! j \<or>
        (labels1 ! j = - 1 \<and> int (c + 1) \<le> dbscan_loop is_core nbs rest (c + 1) labels1 ! j)"
        by simp
      with e1[OF j]
      show "dbscan_loop is_core nbs (i # rest) c labels ! j = labels ! j \<or>
        (labels ! j = - 1 \<and> int c \<le> dbscan_loop is_core nbs (i # rest) c labels ! j)"
        unfolding r by auto
    qed
  qed
qed

lemma loop_length: "length (dbscan_loop is_core nbs todo c labels) = length labels"
  using loop_entries by blast

lemma loop_frame:
  "j < length labels \<Longrightarrow> labels ! j \<noteq> - 1 \<Longrightarrow>
     dbscan_loop is_core nbs todo c labels ! j = labels ! j"
  using loop_entries[of is_core nbs todo c labels] by auto

text \<open>Every core point that the loop reaches has a label afterwards.\<close>

lemma loop_core:
  "i \<in> set todo \<Longrightarrow> i < length labels \<Longrightarrow> is_core ! i \<Longrightarrow>
     dbscan_loop is_core nbs todo c labels ! i \<noteq> - 1"
proof (induction todo arbitrary: c labels)
  case Nil
  then show ?case by simp
next
  case (Cons h rest)
  show ?case
  proof (cases "labels ! h \<noteq> - 1 \<or> \<not> is_core ! h")
    case True
    then have r: "dbscan_loop is_core nbs (h # rest) c labels = dbscan_loop is_core nbs rest c labels"
      by simp
    show ?thesis
    proof (cases "i = h")
      case True
      with \<open>labels ! h \<noteq> - 1 \<or> \<not> is_core ! h\<close> Cons.prems have "labels ! i \<noteq> - 1" by simp
      with Cons.prems show ?thesis unfolding r by (simp add: loop_frame)
    next
      case False
      with Cons show ?thesis unfolding r by simp
    qed
  next
    case False
    define labels1 where "labels1 = dbscan_walk is_core nbs c h [] labels"
    have r: "dbscan_loop is_core nbs (h # rest) c labels
        = dbscan_loop is_core nbs rest (c + 1) labels1"
      using False by (simp add: labels1_def)
    have l1: "length labels1 = length labels" by (simp add: labels1_def walk_length)
    show ?thesis
    proof (cases "i = h")
      case True
      with False Cons.prems have "labels1 ! i = int c"
        by (simp add: labels1_def walk_seed)
      then have "labels1 ! i \<noteq> - 1" by simp
      with Cons.prems l1 show ?thesis unfolding r by (simp add: loop_frame)
    next
      case False
      with Cons.prems have "i \<in> set rest" by simp
      with Cons.IH[of labels1 "c + 1"] Cons.prems l1 show ?thesis unfolding r by simp
    qed
  qed
qed

section \<open>Norms and scaled rows\<close>

lemma sum_squares_nonneg: "0 \<le> (\<Sum>a\<leftarrow>x. a * a)" for x :: "real list"
  by (induction x) auto

lemma sum_squares_zero_iff: "(\<Sum>a\<leftarrow>x. a * a) = 0 \<longleftrightarrow> (\<forall>a \<in> set x. a = 0)" for x :: "real list"
proof (induction x)
  case Nil
  then show ?case by simp
next
  case (Cons a x)
  have "0 \<le> a * a" by simp
  with sum_squares_nonneg[of x] have "a * a + (\<Sum>a\<leftarrow>x. a * a) = 0 \<longleftrightarrow> a * a = 0 \<and> (\<Sum>a\<leftarrow>x. a * a) = 0"
    by (simp add: add_nonneg_eq_0_iff)
  with Cons show ?case by simp
qed

lemma l2norm_zero_iff: "l2norm x = 0 \<longleftrightarrow> (\<forall>a \<in> set x. a = 0)"
  by (simp add: l2norm_def sum_squares_zero_iff)

lemma sum_squares_scaled:
  "(\<Sum>a\<leftarrow>map (\<lambda>a. a / n) x. a * a) = (\<Sum>a\<leftarrow>x. a * a) / (n * n)" for x :: "real list"
  by (induction x) (simp_all add: add_divide_distrib)

text \<open>A row that is not zero has norm 1 after scaling; a zero row stays as it is.\<close>

lemma l2norm_normalize_row: "l2norm x \<noteq> 0 \<Longrightarrow> l2norm (normalize_row x) = 1"
proof -
  assume nz: "l2norm x \<noteq> 0"
  define S where "S = (\<Sum>a\<leftarrow>x. a * a)"
  have S: "0 \<le> S" "S \<noteq> 0" "l2norm x = sqrt S"
    using nz sum_squares_nonneg[of x] by (auto simp: S_def l2norm_def)
  then have sq: "sqrt S * sqrt S = S" by simp
  have "(\<Sum>a\<leftarrow>map (\<lambda>a. a / sqrt S) x. a * a) = S / (sqrt S * sqrt S)"
    unfolding S_def by (rule sum_squares_scaled)
  also have "\<dots> = 1" using S by (simp only: sq) simp
  finally have "l2norm (map (\<lambda>a. a / sqrt S) x) = 1"
    by (simp only: l2norm_def real_sqrt_one)
  with nz S show ?thesis by (simp add: normalize_row_def)
qed

lemma normalize_row_zero: "\<forall>a \<in> set x. a = 0 \<Longrightarrow> normalize_row x = x"
  by (simp add: normalize_row_def l2norm_zero_iff)

lemma dot_self: "dot x x = (\<Sum>a\<leftarrow>x. a * a)"
  unfolding dot_def by (induction x) auto

text \<open>A row that is not zero has cosine similarity 1 to itself, a row of zeros 0.\<close>

lemma cosine_similarity_self: "l2norm x \<noteq> 0 \<Longrightarrow> cosine_similarity x x = 1"
proof -
  assume "l2norm x \<noteq> 0"
  then have "l2norm (normalize_row x) = 1" by (rule l2norm_normalize_row)
  then have "sqrt (dot (normalize_row x) (normalize_row x)) = 1"
    by (simp only: l2norm_def dot_self)
  then show ?thesis by (simp add: cosine_similarity_def)
qed


text \<open>If that point is not a core point, it stays noise.\<close>

lemma loop_noise:
  assumes "z < length labels"
    and "\<forall>j < length labels. j \<noteq> z \<longrightarrow> z \<notin> set (nbs ! j)"
    and "\<not> is_core ! z"
    and "labels ! z = - 1"
  shows "dbscan_loop is_core nbs todo c labels ! z = - 1"
  using assms
proof (induction todo arbitrary: c labels)
  case Nil
  then show ?case by simp
next
  case (Cons i rest)
  show ?case
  proof (cases "labels ! i \<noteq> - 1 \<or> \<not> is_core ! i")
    case True
    then have r: "dbscan_loop is_core nbs (i # rest) c labels = dbscan_loop is_core nbs rest c labels"
      by simp
    show ?thesis unfolding r by (rule Cons.IH) (use Cons.prems in auto)
  next
    case False
    define labels1 where "labels1 = dbscan_walk is_core nbs c i [] labels"
    have r: "dbscan_loop is_core nbs (i # rest) c labels
        = dbscan_loop is_core nbs rest (c + 1) labels1"
      using False by (simp add: labels1_def)
    have l1: "length labels1 = length labels" by (simp add: labels1_def walk_length)
    from False Cons.prems(3) have "z \<noteq> i" by auto
    with Cons.prems(2,4) have z1: "labels1 ! z = - 1"
      by (simp add: labels1_def walk_isolated)
    show ?thesis unfolding r by (rule Cons.IH) (use Cons.prems l1 z1 in auto)
  qed
qed

section \<open>Distances and neighbourhoods\<close>

lemma dot_commute: "dot x y = dot y x"
  unfolding dot_def by (induction x arbitrary: y) (simp, case_tac y, auto)

lemma cosine_distances_sym: "cosine_distances X i j = cosine_distances X j i"
  by (simp add: cosine_distances_def cosine_similarity_def dot_commute[of "normalize_row (X ! i)"])

lemma cosine_distances_self: "cosine_distances X i i = 0"
  by (simp add: cosine_distances_def)

lemma cosine_distances_range: "0 \<le> cosine_distances X i j \<and> cosine_distances X i j \<le> 2"
  by (simp add: cosine_distances_def)

lemma dot_zero: "\<forall>a \<in> set x. a = 0 \<Longrightarrow> dot x y = 0"
  unfolding dot_def by (induction x arbitrary: y) (simp, case_tac y, auto)

lemma cosine_similarity_zero:
  assumes "\<forall>a \<in> set x. a = 0"
  shows "cosine_similarity x y = 0" "cosine_similarity y x = 0"
proof -
  from assms have "normalize_row x = x" by (rule normalize_row_zero)
  with assms show "cosine_similarity x y = 0" by (simp add: cosine_similarity_def dot_zero)
  then show "cosine_similarity y x = 0"
    by (simp add: cosine_similarity_def dot_commute[of "normalize_row y"])
qed

lemma sparse_cosine_distances_sym: "sparse_cosine_distances X i j = sparse_cosine_distances X j i"
  by (simp add: sparse_cosine_distances_def cosine_similarity_def
      dot_commute[of "normalize_row (X ! i)"])

text \<open>
  On the sparse path a row that is not zero is at distance 0 from itself; a row of zeros
  is at distance 1 from every row, itself included.
\<close>

lemma sparse_cosine_distances_self:
  "l2norm (X ! i) \<noteq> 0 \<Longrightarrow> sparse_cosine_distances X i i = 0"
  by (simp add: sparse_cosine_distances_def cosine_similarity_self)

lemma zero_row_distance:
  assumes "\<forall>a \<in> set (X ! z). a = 0"
  shows "sparse_cosine_distances X z j = 1" "sparse_cosine_distances X j z = 1"
  using cosine_similarity_zero[OF assms] by (simp_all add: sparse_cosine_distances_def)

text \<open>The two paths differ on the diagonal alone, and there for rows of zeros alone.\<close>

lemma sparse_cosine_distances_eq:
  "i \<noteq> j \<or> l2norm (X ! i) \<noteq> 0 \<Longrightarrow> sparse_cosine_distances X i j = cosine_distances X i j"
proof (cases "i = j")
  case True
  moreover assume "i \<noteq> j \<or> l2norm (X ! i) \<noteq> 0"
  ultimately show ?thesis by (simp add: cosine_distances_def sparse_cosine_distances_self)
next
  case False
  then show ?thesis by (simp add: cosine_distances_def sparse_cosine_distances_def)
qed

lemma neighborhoods_length: "length (neighborhoods X eps) = length X"
  by (simp add: neighborhoods_def)

lemma neighborhoods_nth:
  "i < length X \<Longrightarrow>
     neighborhoods X eps ! i =
       filter (\<lambda>j. sparse_cosine_distances X i j \<le> eps) [0..<length X]"
  by (simp add: neighborhoods_def)

lemma neighborhoods_mem:
  "i < length X \<Longrightarrow>
     j \<in> set (neighborhoods X eps ! i)
       \<longleftrightarrow> j < length X \<and> sparse_cosine_distances X i j \<le> eps"
  by (auto simp: neighborhoods_nth)

lemma neighborhoods_self:
  "i < length X \<Longrightarrow> 0 \<le> eps \<Longrightarrow> l2norm (X ! i) \<noteq> 0 \<Longrightarrow> i \<in> set (neighborhoods X eps ! i)"
  by (simp add: neighborhoods_mem sparse_cosine_distances_self)

lemma neighborhoods_zero_row:
  assumes "z < length X" "\<forall>a \<in> set (X ! z). a = 0"
  shows "neighborhoods X eps ! z = (if 1 \<le> eps then [0..<length X] else [])"
  by (simp add: neighborhoods_nth[OF assms(1)] zero_row_distance(1)[OF assms(2)])

section \<open>Clustering results\<close>

lemma fit_predict_eq:
  "0 < eps \<Longrightarrow> 1 \<le> min_samples \<Longrightarrow>
   fit_predict X eps min_samples =
     Inr (dbscan_loop (map (\<lambda>nb. min_samples \<le> int (length nb)) (neighborhoods X eps))
            (neighborhoods X eps) [0..<length X] 0 (replicate (length X) (- 1)))"
  by (simp add: fit_predict_def dbscan_inner_def Let_def)

lemma fit_predict_length:
  "fit_predict X eps min_samples = Inr labels \<Longrightarrow> length labels = length X"
  by (auto simp: fit_predict_def dbscan_inner_def Let_def loop_length split: if_splits)

lemma isolated_neighborhoods:
  assumes "z < length X" "\<forall>j < length X. j \<noteq> z \<longrightarrow> eps < sparse_cosine_distances X z j"
  shows "\<forall>j < length X. j \<noteq> z \<longrightarrow> z \<notin> set (neighborhoods X eps ! j)"
    and "set (neighborhoods X eps ! z) \<subseteq> {z}"
proof -
  show "\<forall>j < length X. j \<noteq> z \<longrightarrow> z \<notin> set (neighborhoods X eps ! j)"
  proof (intro allI impI)
    fix j assume j: "j < length X" "j \<noteq> z"
    with assms(2) have "eps < sparse_cosine_distances X j z"
      by (simp add: sparse_cosine_distances_sym[of X j z])
    with j show "z \<notin> set (neighborhoods X eps ! j)" by (simp add: neighborhoods_mem)
  qed
  show "set (neighborhoods X eps ! z) \<subseteq> {z}"
  proof
    fix j assume "j \<in> set (neighborhoods X eps ! z)"
    with assms(1) have "j < length X" "sparse_cosine_distances X z j \<le> eps"
      by (simp_all add: neighborhoods_mem)
    with assms(2) show "j \<in> {z}" by fastforce
  qed
qed


text \<open>
  With \<open>eps < 1\<close> a row of zeros has an empty neighbourhood and is in the neighbourhood of
  no row, so it is no core point and stays noise, whatever \<open>min_samples\<close> is.
\<close>

lemma zero_row_noise:
  assumes "0 < eps" "eps < 1" "1 \<le> min_samples" "z < length X" "\<forall>a \<in> set (X ! z). a = 0"
    and "fit_predict X eps min_samples = Inr labels"
  shows "labels ! z = - 1"
proof -
  let ?nbs = "neighborhoods X eps"
  let ?core = "map (\<lambda>nb. min_samples \<le> int (length nb)) ?nbs"
  let ?l0 = "replicate (length X) (- 1 :: int)"
  have l: "labels = dbscan_loop ?core ?nbs [0..<length X] 0 ?l0"
    using assms(1,3,6) by (simp add: fit_predict_eq)
  have far: "\<forall>j < length X. j \<noteq> z \<longrightarrow> eps < sparse_cosine_distances X z j"
    using zero_row_distance(1)[OF assms(5)] assms(2) by simp
  from assms(2) have "?nbs ! z = []"
    by (simp add: neighborhoods_zero_row[OF assms(4,5)])
  with assms(3,4) have nc: "\<not> ?core ! z" by (simp add: neighborhoods_length)
  show ?thesis
    unfolding l
  proof (rule loop_noise)
    show "z < length ?l0" using assms(4) by simp
    show "\<forall>j < length ?l0. j \<noteq> z \<longrightarrow> z \<notin> set (?nbs ! j)"
      using isolated_neighborhoods(1)[OF assms(4) far] by simp
    show "\<not> ?core ! z" by (rule nc)
    show "?l0 ! z = - 1" using assms(4) by simp
  qed
qed

text \<open>
  With \<open>min_samples = 1\<close> a row is a core point as soon as it is in its own
  neighbourhood: every row that is not zero gets a cluster label, and so does a row of
  zeros for \<open>eps \<ge> 1\<close>.  The noise label goes to the rows of zeros for \<open>eps < 1\<close>, and
  to them alone.
\<close>

lemma min_samples_one_labels:
  assumes "0 < eps" "fit_predict X eps 1 = Inr labels" "i < length X"
  shows "- 1 \<le> labels ! i"
    and "labels ! i = - 1 \<longleftrightarrow> (\<forall>a \<in> set (X ! i). a = 0) \<and> eps < 1"
proof -
  let ?nbs = "neighborhoods X eps"
  let ?core = "map (\<lambda>nb. (1::int) \<le> int (length nb)) ?nbs"
  let ?l0 = "replicate (length X) (- 1 :: int)"
  have l: "labels = dbscan_loop ?core ?nbs [0..<length X] 0 ?l0"
    using assms(1,2) by (simp add: fit_predict_eq)
  from assms(3) have "labels ! i = ?l0 ! i \<or> (?l0 ! i = - 1 \<and> int 0 \<le> labels ! i)"
    using loop_entries[of ?core ?nbs "[0..<length X]" 0 ?l0] by (simp add: l)
  with assms(3) show "- 1 \<le> labels ! i" by auto
  have labelled: "labels ! i \<noteq> - 1" if "i \<in> set (?nbs ! i)"
  proof -
    from that have "1 \<le> length (?nbs ! i)" by (cases "?nbs ! i") auto
    with assms(3) have core: "?core ! i" by (simp add: neighborhoods_length)
    show ?thesis unfolding l by (rule loop_core) (use assms(3) core in simp_all)
  qed
  show "labels ! i = - 1 \<longleftrightarrow> (\<forall>a \<in> set (X ! i). a = 0) \<and> eps < 1"
  proof (cases "\<forall>a \<in> set (X ! i). a = 0")
    case zero: True
    show ?thesis
    proof (cases "eps < 1")
      case True
      with zero_row_noise[OF assms(1) True _ assms(3) zero assms(2)] zero show ?thesis by simp
    next
      case False
      with assms(3) have "i \<in> set (?nbs ! i)"
        by (simp add: neighborhoods_zero_row[OF assms(3) zero])
      with labelled False show ?thesis by simp
    qed
  next
    case False
    then have "l2norm (X ! i) \<noteq> 0" by (simp add: l2norm_zero_iff)
    with assms(1,3) have "i \<in> set (?nbs ! i)" by (simp add: neighborhoods_self)
    with labelled False show ?thesis by simp
  qed
qed

lemma ex_short_vectorize:
  "vectorize_structures [''ab'', ''abc'', ''abd''] = Inr ([[0, 0], [1, 0], [0, 1]], [''abc'', ''abd''])"
proof -
  have v: "vocabulary [''ab'', ''abc'', ''abd''] = [''abc'', ''abd'']" by code_simp
  have t: "tfidf_row [''ab'', ''abc'', ''abd''] ''ab'' = [0, 0]"
    "tfidf_row [''ab'', ''abc'', ''abd''] ''abc'' = [ln 2 + 1, 0]"
    "tfidf_row [''ab'', ''abc'', ''abd''] ''abd'' = [0, ln 2 + 1]"
    by (simp_all add: tfidf_row_def v ex_analyze idf_def df_def)
  have z: "normalize_row [0, 0] = [0, 0]" by (simp add: normalize_row_def l2norm_def)
  show ?thesis
    by (simp add: vectorize_structures_def v t z ex_normalize_row ex_idf_pos)
qed

lemma ex_short_process_files:
  "process_files decode_ascii
     [\<lparr>name = ''s.txt'', getvalue = ''ab''\<rparr>, \<lparr>name = ''a.txt'', getvalue = ''Abc''\<rparr>,
      \<lparr>name = ''c.txt'', getvalue = ''abd''\<rparr>]
   = ([], Inr (Some ([\<lparr>name = ''s.txt'', getvalue = ''ab''\<rparr>, \<lparr>name = ''a.txt'', getvalue = ''Abc''\<rparr>,
                      \<lparr>name = ''c.txt'', getvalue = ''abd''\<rparr>],
                     [''s.txt'', ''a.txt'', ''c.txt''], [[0, 0], [1, 0], [0, 1]])))"
  by (simp add: process_files_def ex_decode ex_structures ex_short_vectorize)

lemma ex_short_distances:
  "cosine_distances [[0, 0], [1, 0], [0, 1]] 0 0 = 0"
  "cosine_distances [[0, 0], [1, 0], [0, 1]] 0 (Suc 0) = 1"
  "cosine_distances [[0, 0], [1, 0], [0, 1]] 0 (Suc (Suc 0)) = 1"
  "cosine_distances [[0, 0], [1, 0], [0, 1]] (Suc 0) 0 = 1"
  "cosine_distances [[0, 0], [1, 0], [0, 1]] (Suc 0) (Suc 0) = 0"
  "cosine_distances [[0, 0], [1, 0], [0, 1]] (Suc 0) (Suc (Suc 0)) = 1"
  "cosine_distances [[0, 0], [1, 0], [0, 1]] (Suc (Suc 0)) 0 = 1"
  "cosine_distances [[0, 0], [1, 0], [0, 1]] (Suc (Suc 0)) (Suc 0) = 1"
  "cosine_distances [[0, 0], [1, 0], [0, 1]] (Suc (Suc 0)) (Suc (Suc 0)) = 0"
  by (simp_all add: cosine_distances_def ex_similarity)

lemma ex_short_k_distance: "plot_k_distance [[0, 0], [1, 0], [0, 1]] 1 = Inr [0, 0, 0]"
  by (simp add: plot_k_distance_def kneighbors_def ex_short_distances)

lemma ex_short_fit_predict: "fit_predict [[0, 0], [1, 0], [0, 1]] (1 / 20) 1 = Inr [- 1, 0, 1]"
proof -
  have n: "neighborhoods [[0, 0], [1, 0], [0, 1]] (1 / 20) = [[], [1], [2]]"
    by (simp add: neighborhoods_def sparse_cosine_distances_def ex_similarity)
  have i: "dbscan_inner [False, True, True] [[], [Suc 0], [2]] [- 1, - 1, - 1] = [- 1, 0, 1]"
    by code_simp
  show ?thesis by (simp add: fit_predict_def n i Let_def)
qed

text \<open>
  Claim C5 says that clustering with \<open>min_samples = 1\<close> never gives the noise label.
  The program breaks it on a document shorter than 3 characters.  In the run below, with
  the default values of the widgets, the document \<open>ab\<close> is processed, its row is zero,
  the k-distance curve reports the distance 0 for it like for the other documents, and
  the clustering labels it \<open>-1\<close>.
\<close>

theorem min_points_one_noise_run:
  "main decode_ascii
     [\<lparr>name = ''s.txt'', getvalue = ''ab''\<rparr>, \<lparr>name = ''a.txt'', getvalue = ''Abc''\<rparr>,
      \<lparr>name = ''c.txt'', getvalue = ''abd''\<rparr>] 1 (1 / 20) 1 False
   = ([], Inr (Shown [0, 0, 0] [- 1, 0, 1] [(- 1, 1), (0, 1), (1, 1)] None)) \<and>
   process_files decode_ascii
     [\<lparr>name = ''s.txt'', getvalue = ''ab''\<rparr>, \<lparr>name = ''a.txt'', getvalue = ''Abc''\<rparr>,
      \<lparr>name = ''c.txt'', getvalue = ''abd''\<rparr>]
   = ([], Inr (Some ([\<lparr>name = ''s.txt'', getvalue = ''ab''\<rparr>, \<lparr>name = ''a.txt'', getvalue = ''Abc''\<rparr>,
                      \<lparr>name = ''c.txt'', getvalue = ''abd''\<rparr>],
                     [''s.txt'', ''a.txt'', ''c.txt''], [[0, 0], [1, 0], [0, 1]]))) \<and>
   fit_predict [[0, 0], [1, 0], [0, 1]] (1 / 20) 1 = Inr [- 1, 0, 1]"
proof -
  have s: "cluster_summary [- 1, 0, 1] = [(- 1, 1), (0, 1), (1, 1)]" by code_simp
  have v: "visualize_clusters [[0, 0], [1, 0], [0, 1]] [- 1, 0, 1] [''s.txt'', ''a.txt'', ''c.txt'']
      = Inr ()"
    by (simp add: visualize_clusters_def)
  have "main decode_ascii
     [\<lparr>name = ''s.txt'', getvalue = ''ab''\<rparr>, \<lparr>name = ''a.txt'', getvalue = ''Abc''\<rparr>,
      \<lparr>name = ''c.txt'', getvalue = ''abd''\<rparr>] 1 (1 / 20) 1 False
   = ([], Inr (Shown [0, 0, 0] [- 1, 0, 1] [(- 1, 1), (0, 1), (1, 1)] None))"
    unfolding main_def ex_short_process_files
    by (simp add: ex_short_k_distance ex_short_fit_predict v s)
  then show ?thesis by (simp add: ex_short_process_files ex_short_fit_predict)
qed








section \<open>The k-distance curve\<close>

lemma kneighbors_eq:
  "1 \<le> k \<Longrightarrow> k \<le> int (length X) \<Longrightarrow>
   kneighbors X k =
     Inr (map (\<lambda>i. take (nat k) (sort (map (cosine_distances X i) [0..<length X])))
            [0..<length X])"
  by (simp add: kneighbors_def)

lemma distinct_split_mset:
  "distinct xs \<Longrightarrow> i \<in> set xs \<Longrightarrow> mset xs = add_mset i (mset (filter (\<lambda>j. j \<noteq> i) xs))"
proof (induction xs)
  case Nil
  then show ?case by simp
next
  case (Cons x xs)
  show ?case
  proof (cases "x = i")
    case True
    with Cons.prems have "i \<notin> set xs" by simp
    then have "filter (\<lambda>j. j \<noteq> i) xs = xs" by (simp add: filter_id_conv) blast
    with True show ?thesis by simp
  next
    case False
    with Cons show ?thesis by simp
  qed
qed

text \<open>The sorted distances from a row to all rows start with its distance 0 to itself.\<close>

lemma sorted_row:
  assumes "i < length X"
  shows "sort (map (cosine_distances X i) [0..<length X]) =
    0 # sort (map (cosine_distances X i) (filter (\<lambda>j. j \<noteq> i) [0..<length X]))"
proof (rule properties_for_sort)
  define idx where "idx = [0..<length X]"
  define others where "others = map (cosine_distances X i) (filter (\<lambda>j. j \<noteq> i) idx)"
  have "distinct idx" "i \<in> set idx" using assms by (simp_all add: idx_def)
  then have "mset idx = add_mset i (mset (filter (\<lambda>j. j \<noteq> i) idx))"
    by (rule distinct_split_mset)
  then have "image_mset (cosine_distances X i) (mset idx)
      = image_mset (cosine_distances X i) (add_mset i (mset (filter (\<lambda>j. j \<noteq> i) idx)))"
    by (rule arg_cong)
  then have "mset (map (cosine_distances X i) idx) = add_mset 0 (mset others)"
    by (simp add: others_def cosine_distances_self)
  then show "mset (0 # sort (map (cosine_distances X i) (filter (\<lambda>j. j \<noteq> i) [0..<length X])))
      = mset (map (cosine_distances X i) [0..<length X])"
    by (simp add: others_def idx_def)
  have "\<forall>d \<in> set (sort others). 0 \<le> d"
    using cosine_distances_range by (auto simp: others_def)
  then show "sorted (0 # sort (map (cosine_distances X i) (filter (\<lambda>j. j \<noteq> i) [0..<length X])))"
    by (simp add: others_def idx_def)
qed

lemma plot_k_distance_eq:
  assumes "1 \<le> k" "k \<le> int (length X)"
  shows "plot_k_distance X k =
    Inr (sort (map (\<lambda>i. (0 # sort (map (cosine_distances X i)
                                   (filter (\<lambda>j. j \<noteq> i) [0..<length X]))) ! nat (k - 1))
               [0..<length X]))"
proof -
  have lt: "nat (k - 1) < nat k" using assms(1) by simp
  have m: "map (\<lambda>row. row ! nat (k - 1))
          (map (\<lambda>i. take (nat k) (sort (map (cosine_distances X i) [0..<length X])))
             [0..<length X])
      = map (\<lambda>i. (0 # sort (map (cosine_distances X i)
                              (filter (\<lambda>j. j \<noteq> i) [0..<length X]))) ! nat (k - 1))
          [0..<length X]"
    unfolding map_map
  proof (rule map_cong[OF refl])
    fix i assume "i \<in> set [0..<length X]"
    then have i: "i < length X" by simp
    show "((\<lambda>row. row ! nat (k - 1)) \<circ>
          (\<lambda>i. take (nat k) (sort (map (cosine_distances X i) [0..<length X])))) i
        = (0 # sort (map (cosine_distances X i) (filter (\<lambda>j. j \<noteq> i) [0..<length X])))
            ! nat (k - 1)"
      by (simp only: comp_apply sorted_row[OF i] nth_take[OF lt])
  qed
  have "plot_k_distance X k =
    Inr (sort (map (\<lambda>row. row ! nat (k - 1))
          (map (\<lambda>i. take (nat k) (sort (map (cosine_distances X i) [0..<length X])))
             [0..<length X])))"
    by (simp only: plot_k_distance_def kneighbors_eq[OF assms] sum.case)
  then show ?thesis by (simp only: m)
qed

lemma sorted_nth_le_iff:
  "sorted ys \<Longrightarrow> m < length ys \<Longrightarrow> ys ! m \<le> e \<longleftrightarrow> m < length (filter (\<lambda>x. x \<le> e) ys)"
  for ys :: "real list"
proof (induction ys arbitrary: m)
  case Nil
  then show ?case by simp
next
  case (Cons y ys)
  show ?case
  proof (cases "y \<le> e")
    case True
    with Cons show ?thesis by (cases m) auto
  next
    case False
    with Cons.prems(1) have all: "\<forall>x \<in> set (y # ys). \<not> x \<le> e" by auto
    then have "filter (\<lambda>x. x \<le> e) (y # ys) = []" by (simp only: filter_False)
    moreover from Cons.prems(2) have "(y # ys) ! m \<in> set (y # ys)" by (rule nth_mem)
    with all have "\<not> (y # ys) ! m \<le> e" by blast
    ultimately show ?thesis by simp
  qed
qed

lemma length_filter_sort:
  "length (filter P (sort xs)) = length (filter P xs)" for xs :: "real list"
proof -
  have "mset (filter P (sort xs)) = mset (filter P xs)" by simp
  then show ?thesis by (rule mset_eq_length)
qed

text \<open>
  For a row that is not zero, the k-th smallest distance of the row, the row itself
  counted, is the least radius at which the clustering takes the row as a core point for
  \<open>min_samples = k\<close>.  For a row of zeros the two differ: the curve counts the row at
  distance 0 from itself, the clustering at distance 1.
\<close>

lemma k_distance_core_radius:
  assumes "1 \<le> k" "k \<le> int (length X)" "i < length X" "l2norm (X ! i) \<noteq> 0"
  shows "sort (map (cosine_distances X i) [0..<length X]) ! nat (k - 1) \<le> eps
    \<longleftrightarrow> k \<le> int (length (neighborhoods X eps ! i))"
proof -
  let ?row = "map (cosine_distances X i) [0..<length X]"
  have m: "nat (k - 1) < length (sort ?row)" using assms(1,2) by simp
  have "sort ?row ! nat (k - 1) \<le> eps
      \<longleftrightarrow> nat (k - 1) < length (filter (\<lambda>x. x \<le> eps) (sort ?row))"
    by (rule sorted_nth_le_iff[OF sorted_sort m])
  also have "length (filter (\<lambda>x. x \<le> eps) (sort ?row)) = length (filter (\<lambda>x. x \<le> eps) ?row)"
    by (rule length_filter_sort)
  also have "\<dots> = length (neighborhoods X eps ! i)"
    by (simp add: neighborhoods_nth[OF assms(3)] filter_map comp_def
        sparse_cosine_distances_eq[of _ _ X] assms(4))
  finally show ?thesis using assms(1) by auto
qed

text \<open>
  Claim C1, as amended: for \<open>1 \<le> k \<le> N\<close> the curve holds, for every row, the \<open>k\<close>-th
  smallest cosine distance from the row to all rows of the corpus, the row itself
  included at distance 0: the value is 0 for \<open>k = 1\<close> and the \<open>(k - 1)\<close>-th smallest
  distance to the other rows for \<open>k > 1\<close>.  The curve is sorted in ascending order and
  has one value per row.
\<close>

theorem k_distance_counts_self:
  assumes "1 \<le> k" "k \<le> int (length X)"
  shows "\<exists>curve. plot_k_distance X k = Inr curve \<and> sorted curve \<and> length curve = length X \<and>
    curve = sort (map (\<lambda>i. (0 # sort (map (cosine_distances X i)
                                        (filter (\<lambda>j. j \<noteq> i) [0..<length X]))) ! nat (k - 1))
                    [0..<length X])"
  by (simp add: plot_k_distance_eq[OF assms])

theorem k_distance_counts_self_witness:
  "(1 :: int) \<le> 2 \<and> (2 :: int) \<le> int (length [[1, 0], [1, 0], [0, 1 :: real]]) \<and>
   plot_k_distance [[1, 0], [1, 0], [0, 1]] 2 = Inr [0, 0, 1]"
proof -
  have h: "(1 :: int) \<le> 2" "(2 :: int) \<le> int (length [[1, 0], [1, 0], [0, 1 :: real]])"
    by simp_all
  from k_distance_counts_self[OF h]
  obtain curve where "plot_k_distance [[1, 0], [1, 0], [0, 1]] 2 = Inr curve" by blast
  with h show ?thesis by (simp add: ex_k_distance)
qed

lemma ex_pair_distances:
  "cosine_distances [[1, 0], [0, 1]] 0 0 = 0"
  "cosine_distances [[1, 0], [0, 1]] 0 (Suc 0) = 1"
  "cosine_distances [[1, 0], [0, 1]] (Suc 0) 0 = 1"
  "cosine_distances [[1, 0], [0, 1]] (Suc 0) (Suc 0) = 0"
  by (simp_all add: cosine_distances_def cosine_similarity_def dot_def ex_normalize_row)

lemma ex_pair_vectorize:
  "vectorize_structures [''abc'', ''abd''] = Inr ([[1, 0], [0, 1]], [''abc'', ''abd''])"
proof -
  have v: "vocabulary [''abc'', ''abd''] = [''abc'', ''abd'']" by code_simp
  have t: "tfidf_row [''abc'', ''abd''] ''abc'' = [ln (3 / 2) + 1, 0]"
    "tfidf_row [''abc'', ''abd''] ''abd'' = [0, ln (3 / 2) + 1]"
    by (simp_all add: tfidf_row_def v ex_analyze idf_def df_def)
  show ?thesis
    by (simp add: vectorize_structures_def v t ex_normalize_row ex_idf_pos)
qed

theorem k_distance_counterexample:
  "vectorize_structures [''abc'', ''abd''] = Inr ([[1, 0], [0, 1]], [''abc'', ''abd'']) \<and>
   plot_k_distance [[1, 0], [0, 1]] 1 = Inr [0, 0] \<and>
   cosine_distances [[1, 0], [0, 1]] 0 1 = 1 \<and> cosine_distances [[1, 0], [0, 1]] 1 0 = 1"
  by (simp add: ex_pair_vectorize plot_k_distance_def kneighbors_def ex_pair_distances)

text \<open>
  Claim C3, as amended: the k-distance operation fails exactly when \<open>k\<close> is below 1 or
  above the number \<open>N\<close> of rows, with the library's error for the case; for
  \<open>1 \<le> k \<le> N\<close>, the case \<open>k = N\<close> and the single-document corpus with \<open>k = 1\<close>
  included, it returns a curve with one value per row.
\<close>

theorem k_distance_failure:
  "(plot_k_distance X k = Inl InvalidParameter \<longleftrightarrow> k < 1) \<and>
   (plot_k_distance X k = Inl NeighborsExceedSamples \<longleftrightarrow> 1 \<le> k \<and> int (length X) < k) \<and>
   ((\<exists>curve. plot_k_distance X k = Inr curve \<and> length curve = length X)
      \<longleftrightarrow> 1 \<le> k \<and> k \<le> int (length X))"
  by (auto simp: plot_k_distance_def kneighbors_def)

lemma ex_single_vectorize: "vectorize_structures [''abc''] = Inr ([[1]], [''abc''])"
proof -
  have v: "vocabulary [''abc''] = [''abc'']" by code_simp
  have t: "tfidf_row [''abc''] ''abc'' = [1]"
    by (simp add: tfidf_row_def v ex_analyze idf_def df_def)
  show ?thesis
    by (simp add: vectorize_structures_def v t ex_normalize_row)
qed

theorem k_distance_failure_witness:
  "plot_k_distance [[1]] 2 = Inl NeighborsExceedSamples \<and>
   plot_k_distance [[1]] 0 = Inl InvalidParameter \<and>
   (\<exists>curve. plot_k_distance [[1]] 1 = Inr curve \<and> length curve = length [[1 :: real]])"
  using k_distance_failure[of "[[1]]" 2] k_distance_failure[of "[[1]]" 0]
    k_distance_failure[of "[[1]]" 1]
  by simp

theorem single_document_counterexample:
  "vectorize_structures [''abc''] = Inr ([[1]], [''abc'']) \<and>
   plot_k_distance [[1]] 1 = Inr [0]"
  by (simp add: ex_single_vectorize plot_k_distance_def kneighbors_def cosine_distances_def)

section \<open>The norm of a document vector\<close>

subsection \<open>The n-grams of a text\<close>

lemma char_ngrams_short: "length (white_spaces_sub s) < 3 \<Longrightarrow> char_ngrams s = []"
  by (simp add: char_ngrams_def Let_def)

lemma concat_map_mem: "n \<in> set ns \<Longrightarrow> x \<in> set (f n) \<Longrightarrow> x \<in> set (concat (map f ns))"
  by auto

lemma char_ngrams_long:
  assumes "3 \<le> length (white_spaces_sub s)"
  shows "take 3 (white_spaces_sub s) \<in> set (char_ngrams s)"
proof -
  define t where "t = white_spaces_sub s"
  have "(3::nat) < min 6 (length t + 1)" using assms by (simp add: t_def)
  then have a: "(3::nat) \<in> set [3..<min 6 (length t + 1)]"
    by (simp only: set_upt atLeastLessThan_iff) simp
  have "(0::nat) \<in> set [0..<length t - 3 + 1]" by (simp only: set_upt atLeastLessThan_iff) simp
  then have "take 3 (drop 0 t) \<in> (\<lambda>i. take 3 (drop i t)) ` set [0..<length t - 3 + 1]"
    by (rule imageI)
  then have b: "take 3 t \<in> set (map (\<lambda>i. take 3 (drop i t)) [0..<length t - 3 + 1])"
    by (simp only: set_map drop_0)
  have "take 3 t \<in> set (concat (map (\<lambda>n. map (\<lambda>i. take n (drop i t)) [0..<length t - n + 1])
                                  [3..<min 6 (length t + 1)]))"
    using a b by (rule concat_map_mem)
  then show ?thesis by (simp only: char_ngrams_def Let_def t_def)
qed

lemma analyze_empty_iff: "analyze d = [] \<longleftrightarrow> length (white_spaces_sub (lower d)) < 3"
proof
  assume "analyze d = []"
  then show "length (white_spaces_sub (lower d)) < 3"
    using char_ngrams_long[of "lower d"] by (fastforce simp: analyze_def)
next
  assume "length (white_spaces_sub (lower d)) < 3"
  then show "analyze d = []" by (simp add: analyze_def char_ngrams_short)
qed

lemma vocabulary_set: "set (vocabulary docs) = (\<Union>d \<in> set docs. set (analyze d))"
  by (simp add: vocabulary_def)

lemma vocabulary_empty_iff:
  "vocabulary docs = [] \<longleftrightarrow> (\<forall>d \<in> set docs. length (white_spaces_sub (lower d)) < 3)"
proof -
  have "vocabulary docs = [] \<longleftrightarrow> set (vocabulary docs) = {}" by simp
  also have "\<dots> \<longleftrightarrow> (\<forall>d \<in> set docs. analyze d = [])" by (auto simp: vocabulary_set)
  finally show ?thesis by (simp add: analyze_empty_iff)
qed

subsection \<open>Weights\<close>

lemma df_le: "df docs t \<le> length docs"
  by (simp add: df_def)

lemma idf_ge_one: "1 \<le> idf docs t"
proof -
  have "1 + real (df docs t) \<le> 1 + real (length docs)" using df_le[of docs t] by simp
  then have "1 \<le> (1 + real (length docs)) / (1 + real (df docs t))"
    by (simp add: le_divide_eq)
  then have "0 \<le> ln ((1 + real (length docs)) / (1 + real (df docs t)))" by simp
  then show ?thesis by (simp add: idf_def)
qed

lemma tfidf_row_zero: "analyze d = [] \<Longrightarrow> \<forall>a \<in> set (tfidf_row docs d). a = 0"
  by (simp add: tfidf_row_def)

lemma tfidf_row_nonzero:
  assumes "d \<in> set docs" "analyze d \<noteq> []"
  shows "l2norm (tfidf_row docs d) \<noteq> 0"
proof -
  from assms(2) obtain g where g: "g \<in> set (analyze d)" by (cases "analyze d") auto
  with assms(1) have gv: "g \<in> set (vocabulary docs)" by (auto simp: vocabulary_set)
  define w where "w = real (count_list (analyze d) g) * idf docs g"
  from g have "count_list (analyze d) g \<noteq> 0" by (simp add: count_list_0_iff)
  then have "0 < real (count_list (analyze d) g)" by simp
  moreover have "0 < idf docs g" using idf_ge_one[of docs g] by simp
  ultimately have "0 < w" unfolding w_def by (rule mult_pos_pos)
  then have nz: "w \<noteq> 0" by simp
  from gv have "w \<in> set (tfidf_row docs d)" by (simp add: tfidf_row_def w_def)
  with nz have "\<exists>a \<in> set (tfidf_row docs d). a \<noteq> 0" by blast
  then show ?thesis by (simp add: l2norm_zero_iff)
qed

text \<open>
  Claim C6, as amended: the vectoriser fails only when no document has an n-gram, that
  is when every text has fewer than 3 characters.  Otherwise it returns one vector per
  document, of Euclidean norm exactly 1 (in real arithmetic) for a text of at least 3
  characters, and the zero vector for a shorter text, blank or not.  Lengths count the
  text as the analyser reads it: lower-cased, runs of white space collapsed.
\<close>

theorem vector_norm:
  "(vectorize_structures docs = Inl EmptyVocabulary
      \<longleftrightarrow> (\<forall>d \<in> set docs. length (white_spaces_sub (lower d)) < 3)) \<and>
   (\<forall>X vocab. vectorize_structures docs = Inr (X, vocab) \<longrightarrow>
      length X = length docs \<and>
      (\<forall>i < length docs.
         (3 \<le> length (white_spaces_sub (lower (docs ! i))) \<longrightarrow> l2norm (X ! i) = 1) \<and>
         (length (white_spaces_sub (lower (docs ! i))) < 3 \<longrightarrow> (\<forall>a \<in> set (X ! i). a = 0))))"
proof (intro conjI allI impI)
  show "vectorize_structures docs = Inl EmptyVocabulary
      \<longleftrightarrow> (\<forall>d \<in> set docs. length (white_spaces_sub (lower d)) < 3)"
    by (simp add: vectorize_structures_def vocabulary_empty_iff[symmetric])
next
  fix X vocab assume v: "vectorize_structures docs = Inr (X, vocab)"
  then have X: "X = map (\<lambda>d. normalize_row (tfidf_row docs d)) docs"
    by (simp add: vectorize_structures_def split: if_splits)
  then show "length X = length docs" by simp
  fix i assume i: "i < length docs"
  then have row: "X ! i = normalize_row (tfidf_row docs (docs ! i))" by (simp add: X)
  {
    assume "3 \<le> length (white_spaces_sub (lower (docs ! i)))"
    then have "analyze (docs ! i) \<noteq> []" by (simp add: analyze_empty_iff)
    with i have "l2norm (tfidf_row docs (docs ! i)) \<noteq> 0"
      by (intro tfidf_row_nonzero) simp_all
    then show "l2norm (X ! i) = 1" by (simp add: row l2norm_normalize_row)
  }
  {
    assume "length (white_spaces_sub (lower (docs ! i))) < 3"
    then have "analyze (docs ! i) = []" by (simp add: analyze_empty_iff)
    then have z: "\<forall>a \<in> set (tfidf_row docs (docs ! i)). a = 0" by (rule tfidf_row_zero)
    then show "\<forall>a \<in> set (X ! i). a = 0" by (simp add: row normalize_row_zero)
  }
qed

theorem vector_norm_witness:
  "vectorize_structures [''ab'', ''abc''] = Inr ([[0], [1]], [''abc'']) \<and>
   l2norm ([[0], [1]] ! 1) = 1 \<and> [[0], [1 :: real]] ! 0 = [0]"
proof -
  have v: "vectorize_structures [''ab'', ''abc''] = Inr ([[0], [1]], [''abc''])"
    by (rule ex_vectorize_short)
  have len: "3 \<le> length (white_spaces_sub (lower ([''ab'', ''abc''] ! 1)))" by code_simp
  note r = vector_norm[of "[''ab'', ''abc'']", THEN conjunct2, THEN spec, THEN spec, THEN mp,
      OF v, THEN conjunct2, THEN spec, THEN mp, THEN conjunct1, THEN mp]
  have "l2norm ([[0], [1]] ! 1) = 1"
    by (rule r) (simp, rule len)
  with v show ?thesis by simp
qed

theorem vector_norm_counterexample:
  "get_file_structure ''ab'' = Some ''ab'' \<and>
   vectorize_structures [''ab'', ''abc''] = Inr ([[0], [1]], [''abc'']) \<and>
   l2norm ([[0], [1]] ! 0) = 0"
  by (simp add: ex_structures ex_vectorize_short l2norm_def)

section \<open>The archive\<close>

lemma str_nat_digits: "\<forall>c \<in> set (str_nat n). 48 \<le> (of_char c :: nat) \<and> (of_char c :: nat) \<le> 57"
proof (induction n rule: str_nat.induct)
  case (1 n)
  show ?case
  proof (cases "n < 10")
    case True
    then show ?thesis by (subst str_nat.simps) simp
  next
    case False
    have "n mod 10 < 10" by simp
    then have "48 + n mod 10 < 256" "48 + n mod 10 \<le> 57" by linarith+
    with False 1 show ?thesis by (subst str_nat.simps) auto
  qed
qed

lemma str_nat_nonempty: "str_nat n \<noteq> []"
  by (subst str_nat.simps) simp

lemma digits_value_str_nat: "digits_value (str_nat n) = n"
proof (induction n rule: str_nat.induct)
  case (1 n)
  show ?case
  proof (cases "n < 10")
    case True
    then show ?thesis by (subst str_nat.simps) (simp add: digits_value_def)
  next
    case False
    have "n mod 10 < 10" by simp
    then have m: "(48 + n mod 10) mod 256 = 48 + n mod 10" by simp
    have "digits_value (str_nat n) = digits_value (str_nat (n div 10) @ [char_of (48 + n mod 10)])"
      using False by (subst str_nat.simps) simp
    also have "\<dots> = 10 * digits_value (str_nat (n div 10)) + n mod 10"
      by (simp add: digits_value_def m)
    also have "\<dots> = n" using 1[OF False] by simp
    finally show ?thesis .
  qed
qed

lemma str_nat_inj: "str_nat m = str_nat n \<Longrightarrow> m = n"
  by (metis digits_value_str_nat)

lemma str_int_inj: "str_int i = str_int j \<Longrightarrow> i = j"
proof -
  assume e: "str_int i = str_int j"
  have first: "hd (str_nat n) \<noteq> CHR ''-''" for n
  proof
    assume h: "hd (str_nat n) = CHR ''-''"
    from str_nat_nonempty[of n] have "hd (str_nat n) \<in> set (str_nat n)" by simp
    with str_nat_digits[of n] have "48 \<le> (of_char (hd (str_nat n)) :: nat)" by blast
    with h show False by simp
  qed
  show ?thesis
  proof (cases "i < 0"; cases "j < 0")
    assume "i < 0" "j < 0"
    with e have "str_nat (nat (- i)) = str_nat (nat (- j))" by (simp add: str_int_def)
    then have "nat (- i) = nat (- j)" by (rule str_nat_inj)
    with \<open>i < 0\<close> \<open>j < 0\<close> show ?thesis by simp
  next
    assume "i < 0" "\<not> j < 0"
    with e have "CHR ''-'' # str_nat (nat (- i)) = str_nat (nat j)" by (simp add: str_int_def)
    then have "hd (str_nat (nat j)) = CHR ''-''" by (metis list.sel(1))
    with first show ?thesis by blast
  next
    assume "\<not> i < 0" "j < 0"
    with e have "str_nat (nat i) = CHR ''-'' # str_nat (nat (- j))" by (simp add: str_int_def)
    then have "hd (str_nat (nat i)) = CHR ''-''" by simp
    with first show ?thesis by blast
  next
    assume "\<not> i < 0" "\<not> j < 0"
    with e have "str_nat (nat i) = str_nat (nat j)" by (simp add: str_int_def)
    then have "nat i = nat j" by (rule str_nat_inj)
    with \<open>\<not> i < 0\<close> \<open>\<not> j < 0\<close> show ?thesis by simp
  qed
qed

lemma str_int_no_slash: "CHR ''/'' \<notin> set (str_int i)"
proof
  assume a: "CHR ''/'' \<in> set (str_int i)"
  have "CHR ''/'' \<notin> set (str_nat n)" for n
  proof
    assume "CHR ''/'' \<in> set (str_nat n)"
    with str_nat_digits[of n] have "48 \<le> (of_char CHR ''/'' :: nat)" by blast
    then show False by simp
  qed
  with a show False by (auto simp: str_int_def split: if_splits)
qed

lemma takeWhile_stop: "\<forall>c \<in> set xs. P c \<Longrightarrow> \<not> P y \<Longrightarrow> takeWhile P (xs @ y # ys) = xs"
  by (induction xs) auto

lemma folder_name_no_slash: "CHR ''/'' \<notin> set (folder_name l)"
proof -
  have "CHR ''/'' \<notin> set ''cluster_''" by simp
  with str_int_no_slash[of l] show ?thesis
    unfolding folder_name_def by (simp only: set_append Un_iff) blast
qed

lemma folder_name_eq_iff: "folder_name l = folder_name l' \<longleftrightarrow> l = l'"
  using str_int_inj by (auto simp: folder_name_def)

lemma path_join_relative:
  "file_name = [] \<or> hd file_name \<noteq> CHR ''/'' \<Longrightarrow>
     path_join folder file_name = folder @ CHR ''/'' # file_name"
  by (auto simp: path_join_def)

lemma folder_of_path_join:
  assumes "file_name = [] \<or> hd file_name \<noteq> CHR ''/''"
  shows "folder_of (path_join (folder_name l) file_name) = folder_name l"
proof -
  have "\<forall>c \<in> set (folder_name l). c \<noteq> CHR ''/''"
    using folder_name_no_slash[of l] by blast
  then have "takeWhile (\<lambda>c. c \<noteq> CHR ''/'') (folder_name l @ CHR ''/'' # file_name) = folder_name l"
    by (rule takeWhile_stop) simp
  then show ?thesis by (simp only: folder_of_def path_join_relative[OF assms])
qed

lemma save_clustered_files_nth:
  assumes "length labels = length processed_files"
  shows "save_clustered_files processed_files labels =
    map (\<lambda>i. (path_join (folder_name (labels ! i)) (name (processed_files ! i)),
              getvalue (processed_files ! i)))
        [0..<length processed_files]"
  by (rule nth_equalityI) (simp_all add: save_clustered_files_def assms)

section \<open>The pipeline\<close>

lemma kept_blank:
  "decode (getvalue f) = Some content \<Longrightarrow> get_file_structure content = Some [] \<Longrightarrow> \<not> kept decode f"
  by (simp add: kept_def)

lemma process_files_Some:
  assumes "process_files decode files = (msgs, Inr (Some (pf, names, X)))"
  shows "pf = filter (kept decode) files" "names = map name pf"
    "X = map (\<lambda>f. normalize_row (tfidf_row (map (structure_of decode) pf) (structure_of decode f))) pf"
    "msgs = map (\<lambda>f. DecodeError (name f)) (filter (\<lambda>f. decode (getvalue f) = None) files)"
    "pf \<noteq> []"
  using assms by (auto simp: process_files_eq Let_def comp_def split: if_splits)

text \<open>
  Claim C2, as amended: a document whose normalisation yields the empty string is
  dropped by \<open>process_files\<close> before vectorisation.  It is not among the processed
  files, so it gets no vector and no label, and the batch is processed exactly as if
  the file had not been uploaded.
\<close>

theorem blank_document_dropped:
  assumes "decode (getvalue f) = Some content" "get_file_structure content = Some []"
  shows "process_files decode (fs1 @ f # fs2) = process_files decode (fs1 @ fs2) \<and>
    (\<forall>msgs pf names X. process_files decode (fs1 @ f # fs2) = (msgs, Inr (Some (pf, names, X)))
       \<longrightarrow> f \<notin> set pf \<and> length X = length pf \<and> length names = length pf)"
proof (intro conjI allI impI)
  from assms have nk: "\<not> kept decode f" by (rule kept_blank)
  show "process_files decode (fs1 @ f # fs2) = process_files decode (fs1 @ fs2)"
    using nk by (simp add: process_files_eq assms(1))
  fix msgs pf names X
  assume "process_files decode (fs1 @ f # fs2) = (msgs, Inr (Some (pf, names, X)))"
  from process_files_Some(1,2,3)[OF this] nk
  show "f \<notin> set pf" "length X = length pf" "length names = length pf" by simp_all
qed

lemma ex_twin_vectorize: "vectorize_structures [''abc'', ''abc''] = Inr ([[1], [1]], [''abc''])"
proof -
  have v: "vocabulary [''abc'', ''abc''] = [''abc'']" by code_simp
  have t: "tfidf_row [''abc'', ''abc''] ''abc'' = [1]"
    by (simp add: tfidf_row_def v ex_analyze idf_def df_def)
  show ?thesis by (simp add: vectorize_structures_def v t ex_normalize_row)
qed

lemma ex_twin_process_files:
  "process_files decode_ascii
     [\<lparr>name = ''e.txt'', getvalue = '' \<newline>''\<rparr>, \<lparr>name = ''a.txt'', getvalue = ''Abc''\<rparr>,
      \<lparr>name = ''b.txt'', getvalue = ''abc\<newline>''\<rparr>]
   = ([], Inr (Some ([\<lparr>name = ''a.txt'', getvalue = ''Abc''\<rparr>, \<lparr>name = ''b.txt'', getvalue = ''abc\<newline>''\<rparr>],
                     [''a.txt'', ''b.txt''], [[1], [1]])))"
  by (simp add: process_files_def ex_decode ex_structures ex_twin_vectorize)

lemma ex_twin_fit_predict: "fit_predict [[1], [1]] (1 / 2) 1 = Inr [0, 0]"
proof -
  have n: "neighborhoods [[1], [1]] (1 / 2) = [[0, 1], [0, 1]]"
    by (simp add: neighborhoods_def sparse_cosine_distances_def ex_similarity)
  have i: "dbscan_inner [True, True] [[0, Suc 0], [0, Suc 0]] [- 1, - 1] = [0, 0]"
    by code_simp
  show ?thesis by (simp add: fit_predict_def n i Let_def)
qed

theorem blank_document_dropped_witness:
  "decode_ascii (getvalue \<lparr>name = ''e.txt'', getvalue = '' \<newline>''\<rparr>) = Some '' \<newline>'' \<and>
   get_file_structure '' \<newline>'' = Some [] \<and>
   process_files decode_ascii
     ([] @ \<lparr>name = ''e.txt'', getvalue = '' \<newline>''\<rparr> #
        [\<lparr>name = ''a.txt'', getvalue = ''Abc''\<rparr>, \<lparr>name = ''b.txt'', getvalue = ''abc\<newline>''\<rparr>])
   = process_files decode_ascii
     ([] @ [\<lparr>name = ''a.txt'', getvalue = ''Abc''\<rparr>, \<lparr>name = ''b.txt'', getvalue = ''abc\<newline>''\<rparr>])"
proof -
  have h: "decode_ascii (getvalue \<lparr>name = ''e.txt'', getvalue = '' \<newline>''\<rparr>) = Some '' \<newline>''"
    "get_file_structure '' \<newline>'' = Some []"
    by (simp_all add: ex_decode ex_structures)
  from blank_document_dropped[of decode_ascii "\<lparr>name = ''e.txt'', getvalue = '' \<newline>''\<rparr>"
      "'' \<newline>''" "[]"
      "[\<lparr>name = ''a.txt'', getvalue = ''Abc''\<rparr>, \<lparr>name = ''b.txt'', getvalue = ''abc\<newline>''\<rparr>]", OF h]
  show ?thesis using h by blast
qed

theorem blank_document_counterexample:
  "get_file_structure '' \<newline>'' = Some [] \<and>
   process_files decode_ascii
     [\<lparr>name = ''e.txt'', getvalue = '' \<newline>''\<rparr>, \<lparr>name = ''a.txt'', getvalue = ''Abc''\<rparr>,
      \<lparr>name = ''b.txt'', getvalue = ''abc\<newline>''\<rparr>]
   = ([], Inr (Some ([\<lparr>name = ''a.txt'', getvalue = ''Abc''\<rparr>, \<lparr>name = ''b.txt'', getvalue = ''abc\<newline>''\<rparr>],
                     [''a.txt'', ''b.txt''], [[1], [1]]))) \<and>
   fit_predict [[1], [1]] (1 / 2) 1 = Inr [0, 0]"
  by (simp add: ex_structures ex_twin_process_files ex_twin_fit_predict)

lemma main_Shown:
  assumes "main decode files k eps ms save = (msgs, Inr (Shown curve labels summary archive))"
  shows "\<exists>pf names X. process_files decode files = (msgs, Inr (Some (pf, names, X))) \<and>
    plot_k_distance X k = Inr curve \<and> fit_predict X eps ms = Inr labels \<and>
    summary = cluster_summary labels \<and>
    archive = (if save then Some (save_clustered_files pf labels) else None)"
proof (cases "files = []")
  case True
  with assms show ?thesis by (simp add: main_def)
next
  case False
  obtain m r where pr: "process_files decode files = (m, r)" by (cases "process_files decode files")
  show ?thesis
  proof (cases r)
    case (Inl e)
    with assms False pr show ?thesis by (simp add: main_def)
  next
    case (Inr res)
    show ?thesis
    proof (cases res)
      case None
      with assms False pr Inr show ?thesis by (simp add: main_def)
    next
      case (Some t)
      obtain pf names X where t: "t = (pf, names, X)" by (cases t)
      from assms False pr Inr Some t show ?thesis
        by (auto simp: main_def split: sum.splits)
    qed
  qed
qed


lemma ex_kept:
  "filter (kept decode_ascii)
     [\<lparr>name = ''x.txt'', getvalue = [CHR 0xFF]\<rparr>, \<lparr>name = ''e.txt'', getvalue = '' \<newline>''\<rparr>,
      \<lparr>name = ''a.txt'', getvalue = ''Abc''\<rparr>, \<lparr>name = ''b.txt'', getvalue = ''abc\<newline>''\<rparr>,
      \<lparr>name = ''c.txt'', getvalue = ''abd''\<rparr>]
   = [\<lparr>name = ''a.txt'', getvalue = ''Abc''\<rparr>, \<lparr>name = ''b.txt'', getvalue = ''abc\<newline>''\<rparr>,
      \<lparr>name = ''c.txt'', getvalue = ''abd''\<rparr>]"
  by (simp add: kept_def ex_decode ex_structures)


section \<open>The archive of a run\<close>

lemma str_int_no_nul: "CHR 0x00 \<notin> set (str_int i)"
proof
  assume a: "CHR 0x00 \<in> set (str_int i)"
  have "CHR 0x00 \<notin> set (str_nat n)" for n
  proof
    assume "CHR 0x00 \<in> set (str_nat n)"
    with str_nat_digits[of n] have "48 \<le> (of_char (CHR 0x00) :: nat)" by blast
    then show False by simp
  qed
  with a show False by (auto simp: str_int_def split: if_splits)
qed

lemma folder_name_no_nul: "CHR 0x00 \<notin> set (folder_name l)"
proof -
  have "CHR 0x00 \<notin> set ''cluster_''" by simp
  with str_int_no_nul[of l] show ?thesis
    unfolding folder_name_def by (simp only: set_append Un_iff) blast
qed

lemma takeWhile_pass:
  "\<forall>c \<in> set xs. P c \<Longrightarrow> P y \<Longrightarrow> takeWhile P (xs @ y # ys) = xs @ y # takeWhile P ys"
  by (induction xs) auto

lemma stored_name_path_join:
  assumes "file_name = [] \<or> hd file_name \<noteq> CHR ''/''"
  shows "stored_name (path_join (folder_name l) file_name)
    = folder_name l @ CHR ''/'' # stored_name file_name"
proof -
  have "\<forall>c \<in> set (folder_name l). c \<noteq> CHR 0x00"
    using folder_name_no_nul[of l] by blast
  then have "takeWhile (\<lambda>c. c \<noteq> CHR 0x00) (folder_name l @ CHR ''/'' # file_name)
      = folder_name l @ CHR ''/'' # takeWhile (\<lambda>c. c \<noteq> CHR 0x00) file_name"
    by (rule takeWhile_pass) simp
  then show ?thesis by (simp only: stored_name_def path_join_relative[OF assms])
qed

lemma folder_of_folder_name: "folder_of (folder_name l @ CHR ''/'' # rest) = folder_name l"
proof -
  have "\<forall>c \<in> set (folder_name l). c \<noteq> CHR ''/''"
    using folder_name_no_slash[of l] by blast
  then have "takeWhile (\<lambda>c. c \<noteq> CHR ''/'') (folder_name l @ CHR ''/'' # rest) = folder_name l"
    by (rule takeWhile_stop) simp
  then show ?thesis by (simp only: folder_of_def)
qed

text \<open>The entries of the archive, when there is one label per file and no name starts with a slash.\<close>

lemma zip_entries_nth:
  assumes "length labels = length pf"
    and "\<forall>f \<in> set pf. name f = [] \<or> hd (name f) \<noteq> CHR ''/''"
  shows "zip_entries (save_clustered_files pf labels) =
    map (\<lambda>i. (folder_name (labels ! i) @ CHR ''/'' # stored_name (name (pf ! i)), getvalue (pf ! i)))
        [0..<length pf]"
proof -
  have "zip_entries (save_clustered_files pf labels) =
    map (\<lambda>i. (stored_name (path_join (folder_name (labels ! i)) (name (pf ! i))), getvalue (pf ! i)))
        [0..<length pf]"
    by (simp add: zip_entries_def save_clustered_files_nth[OF assms(1)] comp_def)
  also have "\<dots> = map (\<lambda>i. (folder_name (labels ! i) @ CHR ''/'' # stored_name (name (pf ! i)),
      getvalue (pf ! i))) [0..<length pf]"
  proof (rule map_cong[OF refl])
    fix i assume "i \<in> set [0..<length pf]"
    then have "pf ! i \<in> set pf" by simp
    with assms(2) have "name (pf ! i) = [] \<or> hd (name (pf ! i)) \<noteq> CHR ''/''" by blast
    then show "(stored_name (path_join (folder_name (labels ! i)) (name (pf ! i))), getvalue (pf ! i))
      = (folder_name (labels ! i) @ CHR ''/'' # stored_name (name (pf ! i)), getvalue (pf ! i))"
      by (simp only: stored_name_path_join)
  qed
  finally show ?thesis .
qed

lemma group_eq:
  assumes "es = map (\<lambda>i. (folder_name (lab i) @ CHR ''/'' # nm i, c i)) [0..<n]"
  shows "folder_entries es (folder_name l) =
    map (\<lambda>i. (folder_name l @ CHR ''/'' # nm i, c i)) (filter (\<lambda>i. lab i = l) [0..<n])"
proof -
  have "folder_entries es (folder_name l)
      = map (\<lambda>i. (folder_name (lab i) @ CHR ''/'' # nm i, c i))
          (filter (\<lambda>i. folder_name (lab i) = folder_name l) [0..<n])"
    by (simp add: folder_entries_def assms filter_map comp_def folder_of_folder_name)
  also have "\<dots> = map (\<lambda>i. (folder_name (lab i) @ CHR ''/'' # nm i, c i))
      (filter (\<lambda>i. lab i = l) [0..<n])"
    by (simp add: folder_name_eq_iff)
  also have "\<dots> = map (\<lambda>i. (folder_name l @ CHR ''/'' # nm i, c i)) (filter (\<lambda>i. lab i = l) [0..<n])"
    by (rule map_cong[OF refl]) simp
  finally show ?thesis .
qed

lemma kept_content:
  "getvalue f = getvalue g \<Longrightarrow> kept decode f = kept decode g"
  by (simp add: kept_def)

text \<open>
  Claim C7, as amended: the groups of a run hold the processed documents, not the
  uploaded ones.  When a run of \<open>main\<close> writes the archive, the uploads that decode and
  have a non-empty structure are the processed files, each has one label, and, their
  names not starting with a slash, the archive has one entry per processed file: the
  group of the folder \<open>cluster_l\<close>, the noise folder \<open>cluster_-1\<close> included, holds exactly
  the processed files labelled \<open>l\<close>, in upload order, each under the path
  \<open>cluster_l/name\<close> with the name cut at its first NUL character; the entry of a file
  lies in the group of its own label and in no other; distinct stored names give
  distinct paths.  An upload that does not decode or has an empty structure is dropped:
  it is no processed file and its content is the content of no entry.
\<close>

theorem archive_partition_of_processed:
  assumes "main decode files k eps ms True = (msgs, Inr (Shown curve labels summary (Some archive)))"
    and "pf = filter (kept decode) files"
    and "\<forall>f \<in> set pf. name f = [] \<or> hd (name f) \<noteq> CHR ''/''"
  shows "length labels = length pf \<and> length (zip_entries archive) = length pf \<and>
    (\<forall>l. folder_entries (zip_entries archive) (folder_name l) =
       map (\<lambda>i. (folder_name l @ CHR ''/'' # stored_name (name (pf ! i)), getvalue (pf ! i)))
           (filter (\<lambda>i. labels ! i = l) [0..<length pf])) \<and>
    (\<forall>i < length pf. \<forall>l.
       zip_entries archive ! i \<in> set (folder_entries (zip_entries archive) (folder_name l))
         \<longleftrightarrow> l = labels ! i) \<and>
    (distinct (map (\<lambda>f. stored_name (name f)) pf) \<longrightarrow> distinct (map fst (zip_entries archive))) \<and>
    (\<forall>f \<in> set files. \<not> kept decode f \<longrightarrow>
       f \<notin> set pf \<and> getvalue f \<notin> set (map snd (zip_entries archive)))"
proof -
  from main_Shown[OF assms(1)] obtain pf' names X where
    pr: "process_files decode files = (msgs, Inr (Some (pf', names, X)))"
    and fp: "fit_predict X eps ms = Inr labels"
    and ar: "archive = save_clustered_files pf' labels"
    by auto
  note ps = process_files_Some[OF pr]
  from ps(1) assms(2) have pf: "pf' = pf" by simp
  have ll: "length labels = length pf"
    using fit_predict_length[OF fp] ps(3) pf by simp
  let ?entry = "\<lambda>i. (folder_name (labels ! i) @ CHR ''/'' # stored_name (name (pf ! i)),
      getvalue (pf ! i))"
  have z: "zip_entries archive = map ?entry [0..<length pf]"
    unfolding ar pf by (rule zip_entries_nth[OF ll assms(3)])
  have len: "length (zip_entries archive) = length pf" by (simp add: z)
  have groups: "\<forall>l. folder_entries (zip_entries archive) (folder_name l) =
       map (\<lambda>i. (folder_name l @ CHR ''/'' # stored_name (name (pf ! i)), getvalue (pf ! i)))
           (filter (\<lambda>i. labels ! i = l) [0..<length pf])"
    using group_eq[OF z] by blast
  have own: "\<forall>i < length pf. \<forall>l.
       zip_entries archive ! i \<in> set (folder_entries (zip_entries archive) (folder_name l))
         \<longleftrightarrow> l = labels ! i"
  proof (intro allI impI)
    fix i l assume i: "i < length pf"
    have e: "zip_entries archive ! i = ?entry i" using i by (simp add: z)
    have mem: "zip_entries archive ! i \<in> set (zip_entries archive)" using i len by simp
    have "folder_of (fst (zip_entries archive ! i)) = folder_name (labels ! i)"
      unfolding e by (simp add: folder_of_folder_name)
    then have "zip_entries archive ! i \<in> set (folder_entries (zip_entries archive) (folder_name l))
        \<longleftrightarrow> folder_name (labels ! i) = folder_name l"
      using mem by (auto simp: folder_entries_def split: prod.splits)
    then show "zip_entries archive ! i \<in> set (folder_entries (zip_entries archive) (folder_name l))
        \<longleftrightarrow> l = labels ! i"
      by (auto simp: folder_name_eq_iff)
  qed
  have dist: "distinct (map fst (zip_entries archive))"
    if d: "distinct (map (\<lambda>f. stored_name (name f)) pf)"
  proof -
    have "map fst (zip_entries archive) = map (\<lambda>i. folder_name (labels ! i) @ CHR ''/'' #
        stored_name (name (pf ! i))) [0..<length pf]"
      by (simp add: z comp_def)
    moreover have "inj_on (\<lambda>i. folder_name (labels ! i) @ CHR ''/'' #
        stored_name (name (pf ! i))) (set [0..<length pf])"
    proof (rule inj_onI)
      fix i j
      assume "i \<in> set [0..<length pf]" "j \<in> set [0..<length pf]"
      then have ij: "i < length pf" "j < length pf" by simp_all
      assume eq: "folder_name (labels ! i) @ CHR ''/'' # stored_name (name (pf ! i))
        = folder_name (labels ! j) @ CHR ''/'' # stored_name (name (pf ! j))"
      then have "folder_of (folder_name (labels ! i) @ CHR ''/'' # stored_name (name (pf ! i)))
        = folder_of (folder_name (labels ! j) @ CHR ''/'' # stored_name (name (pf ! j)))"
        by simp
      then have "folder_name (labels ! i) = folder_name (labels ! j)"
        by (simp only: folder_of_folder_name)
      with eq have "stored_name (name (pf ! i)) = stored_name (name (pf ! j))" by simp
      then have "map (\<lambda>f. stored_name (name f)) pf ! i = map (\<lambda>f. stored_name (name f)) pf ! j"
        using ij by simp
      with d ij nth_eq_iff_index_eq[of "map (\<lambda>f. stored_name (name f)) pf" i j]
      show "i = j" by simp
    qed
    ultimately show ?thesis by (simp add: distinct_map)
  qed
  have dropped: "\<forall>f \<in> set files. \<not> kept decode f \<longrightarrow>
       f \<notin> set pf \<and> getvalue f \<notin> set (map snd (zip_entries archive))"
  proof (intro ballI impI conjI)
    fix f assume f: "f \<in> set files" "\<not> kept decode f"
    show "f \<notin> set pf" using f(2) by (simp add: assms(2))
    show "getvalue f \<notin> set (map snd (zip_entries archive))"
    proof
      assume "getvalue f \<in> set (map snd (zip_entries archive))"
      then obtain i where i: "i < length pf" "getvalue f = getvalue (pf ! i)"
        by (auto simp: z comp_def)
      from i(1) have "pf ! i \<in> set pf" by simp
      then have "kept decode (pf ! i)" by (simp add: assms(2))
      with kept_content[OF i(2), of decode] f(2) show False by simp
    qed
  qed
  from ll len groups own dist dropped show ?thesis by blast
qed

lemma ex_str_int: "str_int 0 = ''0''" "str_int 1 = ''1''" "str_int (- 1) = ''-1''"
  by code_simp+

lemma ex_stored_name:
  "stored_name ''a.txt'' = ''a.txt''" "stored_name ''b.txt'' = ''b.txt''"
  "stored_name ''c.txt'' = ''c.txt''"
  by code_simp+

lemma ex_zip_entries:
  "zip_entries [(''cluster_0/a.txt'', ''Abc''), (''cluster_0/b.txt'', ''abc\<newline>''),
                (''cluster_1/c.txt'', ''abd'')]
   = [(''cluster_0/a.txt'', ''Abc''), (''cluster_0/b.txt'', ''abc\<newline>''),
      (''cluster_1/c.txt'', ''abd'')]"
  by code_simp

theorem archive_partition_of_processed_witness:
  "main decode_ascii
     [\<lparr>name = ''x.txt'', getvalue = [CHR 0xFF]\<rparr>, \<lparr>name = ''e.txt'', getvalue = '' \<newline>''\<rparr>,
      \<lparr>name = ''a.txt'', getvalue = ''Abc''\<rparr>, \<lparr>name = ''b.txt'', getvalue = ''abc\<newline>''\<rparr>,
      \<lparr>name = ''c.txt'', getvalue = ''abd''\<rparr>] 2 (1 / 2) 1 True
   = ([DecodeError ''x.txt''],
      Inr (Shown [0, 0, 1] [0, 0, 1] [(0, 2), (1, 1)]
        (Some [(''cluster_0/a.txt'', ''Abc''), (''cluster_0/b.txt'', ''abc\<newline>''),
               (''cluster_1/c.txt'', ''abd'')]))) \<and>
   folder_entries (zip_entries [(''cluster_0/a.txt'', ''Abc''), (''cluster_0/b.txt'', ''abc\<newline>''),
                                (''cluster_1/c.txt'', ''abd'')]) ''cluster_0''
     = [(''cluster_0/a.txt'', ''Abc''), (''cluster_0/b.txt'', ''abc\<newline>'')] \<and>
   folder_entries (zip_entries [(''cluster_0/a.txt'', ''Abc''), (''cluster_0/b.txt'', ''abc\<newline>''),
                                (''cluster_1/c.txt'', ''abd'')]) ''cluster_1''
     = [(''cluster_1/c.txt'', ''abd'')]"
proof -
  let ?pf = "[\<lparr>name = ''a.txt'', getvalue = ''Abc''\<rparr>,
       \<lparr>name = ''b.txt'', getvalue = ''abc\<newline>''\<rparr>, \<lparr>name = ''c.txt'', getvalue = ''abd''\<rparr>]"
  let ?archive = "[(''cluster_0/a.txt'', ''Abc''), (''cluster_0/b.txt'', ''abc\<newline>''),
       (''cluster_1/c.txt'', ''abd'')]"
  have h: "\<forall>f \<in> set ?pf. name f = [] \<or> hd (name f) \<noteq> CHR ''/''" by simp
  from archive_partition_of_processed[OF ex_main ex_kept[symmetric] h]
  have g: "\<And>l. folder_entries (zip_entries ?archive) (folder_name l) =
       map (\<lambda>i. (folder_name l @ CHR ''/'' # stored_name (name (?pf ! i)), getvalue (?pf ! i)))
           (filter (\<lambda>i. [0, 0, 1 :: int] ! i = l) [0..<length ?pf])"
    by blast
  have "folder_entries (zip_entries ?archive) ''cluster_0''
      = [(''cluster_0/a.txt'', ''Abc''), (''cluster_0/b.txt'', ''abc\<newline>'')]"
    using g[of 0] by (simp add: folder_name_def ex_str_int ex_stored_name)
  moreover have "folder_entries (zip_entries ?archive) ''cluster_1'' = [(''cluster_1/c.txt'', ''abd'')]"
    using g[of 1] by (simp add: folder_name_def ex_str_int ex_stored_name)
  ultimately show ?thesis using ex_main by simp
qed

text \<open>
  The claim as first stated fails for the uploads: of the five uploaded files of this
  run, the one that does not decode and the blank one are in no group.
\<close>

theorem archive_partition_counterexample:
  "main decode_ascii
     [\<lparr>name = ''x.txt'', getvalue = [CHR 0xFF]\<rparr>, \<lparr>name = ''e.txt'', getvalue = '' \<newline>''\<rparr>,
      \<lparr>name = ''a.txt'', getvalue = ''Abc''\<rparr>, \<lparr>name = ''b.txt'', getvalue = ''abc\<newline>''\<rparr>,
      \<lparr>name = ''c.txt'', getvalue = ''abd''\<rparr>] 2 (1 / 2) 1 True
   = ([DecodeError ''x.txt''],
      Inr (Shown [0, 0, 1] [0, 0, 1] [(0, 2), (1, 1)]
        (Some [(''cluster_0/a.txt'', ''Abc''), (''cluster_0/b.txt'', ''abc\<newline>''),
               (''cluster_1/c.txt'', ''abd'')]))) \<and>
   map fst (zip_entries [(''cluster_0/a.txt'', ''Abc''), (''cluster_0/b.txt'', ''abc\<newline>''),
                         (''cluster_1/c.txt'', ''abd'')])
     = [''cluster_0/a.txt'', ''cluster_0/b.txt'', ''cluster_1/c.txt''] \<and>
   cluster_summary [0, 0, 1] = [(0, 2), (1, 1)]"
  using ex_main by (simp add: ex_zip_entries ex_summary)

section \<open>Validation of the parameters\<close>

lemma kept_rename: "kept decode (f\<lparr>name := n\<rparr>) = kept decode f"
  by (simp add: kept_def)

lemma structure_of_rename: "structure_of decode (f\<lparr>name := n\<rparr>) = structure_of decode f"
  by (simp add: structure_of_def)

lemma process_files_rename:
  assumes "process_files decode files = (msgs, Inr (Some (pf, names, X)))"
  shows "\<exists>msgs' pf'. process_files decode (map (\<lambda>f. f\<lparr>name := n\<rparr>) files)
    = (msgs', Inr (Some (pf', map (\<lambda>_. n) pf, X)))"
proof -
  note ps = process_files_Some[OF assms]
  let ?files' = "map (\<lambda>f. f\<lparr>name := n\<rparr>) files"
  have f: "filter (kept decode) ?files' = map (\<lambda>f. f\<lparr>name := n\<rparr>) pf"
    by (simp add: ps(1) filter_map comp_def kept_rename)
  have s: "map (structure_of decode) (map (\<lambda>f. f\<lparr>name := n\<rparr>) pf) = map (structure_of decode) pf"
    by (simp add: comp_def structure_of_rename)
  from assms have v: "vocabulary (map (structure_of decode) pf) \<noteq> []"
    by (auto simp: process_files_eq Let_def split: if_splits)
  have X: "X = map (\<lambda>d. normalize_row (tfidf_row (map (structure_of decode) pf) d))
      (map (structure_of decode) pf)"
    using ps(3) by (simp add: comp_def)
  show ?thesis
    unfolding process_files_eq Let_def f s using ps(5) v X by (simp add: comp_def)
qed

text \<open>
  Claim C4, as amended: nothing is validated up front and no configuration error
  exists.  When no uploaded file survives decoding and normalisation, an empty upload
  included, \<open>process_files\<close> shows a warning and returns no result, and \<open>main\<close> ends
  without an error.  A non-positive \<open>eps\<close> or a \<open>min_samples\<close> below 1 is refused by
  the clustering call alone, after the files were vectorised and the k-distance curve
  was computed.  File names are not compared: renaming all files to one name changes
  neither the processed files nor their vectors.
\<close>

theorem validation_is_late:
  "(filter (kept decode) files = [] \<longrightarrow>
      (\<exists>msgs. process_files decode files = (msgs @ [NoFilesWarning], Inr None)) \<and>
      snd (main decode files k eps min_samples save) = Inr Idle) \<and>
   (\<forall>msgs pf names X curve.
      process_files decode files = (msgs, Inr (Some (pf, names, X))) \<longrightarrow>
      plot_k_distance X k = Inr curve \<longrightarrow> eps \<le> 0 \<or> min_samples < 1 \<longrightarrow>
      main decode files k eps min_samples save = (msgs, Inl InvalidParameter)) \<and>
   (\<forall>msgs pf names X n.
      process_files decode files = (msgs, Inr (Some (pf, names, X))) \<longrightarrow>
      (\<exists>msgs' pf'. process_files decode (map (\<lambda>f. f\<lparr>name := n\<rparr>) files)
         = (msgs', Inr (Some (pf', map (\<lambda>_. n) pf, X)))))"
proof (intro conjI allI impI)
  assume e: "filter (kept decode) files = []"
  then show "\<exists>msgs. process_files decode files = (msgs @ [NoFilesWarning], Inr None)"
    by (simp add: process_files_eq)
  then show "snd (main decode files k eps min_samples save) = Inr Idle"
    by (auto simp: main_def)
next
  fix msgs pf names X curve
  assume pr: "process_files decode files = (msgs, Inr (Some (pf, names, X)))"
    and kd: "plot_k_distance X k = Inr curve" and bad: "eps \<le> 0 \<or> min_samples < 1"
  from pr have "files \<noteq> []" by (auto simp: process_files_eq)
  moreover from bad have "fit_predict X eps min_samples = Inl InvalidParameter"
    by (auto simp: fit_predict_def)
  ultimately show "main decode files k eps min_samples save = (msgs, Inl InvalidParameter)"
    using pr kd by (simp add: main_def)
next
  fix msgs pf names X n
  assume "process_files decode files = (msgs, Inr (Some (pf, names, X)))"
  then show "\<exists>msgs' pf'. process_files decode (map (\<lambda>f. f\<lparr>name := n\<rparr>) files)
      = (msgs', Inr (Some (pf', map (\<lambda>_. n) pf, X)))"
    by (rule process_files_rename)
qed

theorem validation_is_late_witness:
  "main decode_ascii
     [\<lparr>name = ''x.txt'', getvalue = [CHR 0xFF]\<rparr>, \<lparr>name = ''e.txt'', getvalue = '' \<newline>''\<rparr>,
      \<lparr>name = ''a.txt'', getvalue = ''Abc''\<rparr>, \<lparr>name = ''b.txt'', getvalue = ''abc\<newline>''\<rparr>,
      \<lparr>name = ''c.txt'', getvalue = ''abd''\<rparr>] 2 0 1 True
   = ([DecodeError ''x.txt''], Inl InvalidParameter) \<and>
   plot_k_distance [[1, 0], [1, 0], [0, 1]] 2 = Inr [0, 0, 1] \<and>
   snd (main decode_ascii [\<lparr>name = ''e.txt'', getvalue = '' \<newline>''\<rparr>] 2 0 1 True) = Inr Idle"
proof -
  let ?files = "[\<lparr>name = ''x.txt'', getvalue = [CHR 0xFF]\<rparr>, \<lparr>name = ''e.txt'', getvalue = '' \<newline>''\<rparr>,
      \<lparr>name = ''a.txt'', getvalue = ''Abc''\<rparr>, \<lparr>name = ''b.txt'', getvalue = ''abc\<newline>''\<rparr>,
      \<lparr>name = ''c.txt'', getvalue = ''abd''\<rparr>]"
  have bad: "(0 :: real) \<le> 0 \<or> (1 :: int) < 1" by simp
  note late = validation_is_late[of decode_ascii ?files 2 0 1 True, THEN conjunct2, THEN conjunct1,
      THEN spec, THEN spec, THEN spec, THEN spec, THEN spec, THEN mp, THEN mp, THEN mp,
      OF ex_process_files ex_k_distance(2) bad]
  have e: "filter (kept decode_ascii) [\<lparr>name = ''e.txt'', getvalue = '' \<newline>''\<rparr>] = []"
    by (simp add: kept_def ex_decode ex_structures)
  note none = validation_is_late[of decode_ascii "[\<lparr>name = ''e.txt'', getvalue = '' \<newline>''\<rparr>]" 2 0 1 True,
      THEN conjunct1, THEN mp, OF e, THEN conjunct2]
  from late none ex_k_distance(2) show ?thesis by simp
qed

theorem validation_counterexample:
  "main decode_ascii [] 1 (1 / 20) 1 False = ([], Inr Idle) \<and>
   process_files decode_ascii [] = ([NoFilesWarning], Inr None) \<and>
   process_files decode_ascii
     [\<lparr>name = ''a.txt'', getvalue = ''Abc''\<rparr>, \<lparr>name = ''a.txt'', getvalue = ''abd''\<rparr>]
   = ([], Inr (Some ([\<lparr>name = ''a.txt'', getvalue = ''Abc''\<rparr>, \<lparr>name = ''a.txt'', getvalue = ''abd''\<rparr>],
                     [''a.txt'', ''a.txt''], [[1, 0], [0, 1]]))) \<and>
   fit_predict [[1, 0], [0, 1]] (1 / 20) 1 = Inr [0, 1]"
proof -
  have n: "neighborhoods [[1, 0], [0, 1]] (1 / 20) = [[0], [1]]"
    by (simp add: neighborhoods_def sparse_cosine_distances_def ex_similarity)
  have i: "dbscan_inner [True, True] [[0], [Suc 0]] [- 1, - 1] = [0, 1]"
    by code_simp
  have f: "fit_predict [[1, 0], [0, 1]] (1 / 20) 1 = Inr [0, 1]"
    by (simp add: fit_predict_def n i Let_def)
  have p: "process_files decode_ascii
     [\<lparr>name = ''a.txt'', getvalue = ''Abc''\<rparr>, \<lparr>name = ''a.txt'', getvalue = ''abd''\<rparr>]
   = ([], Inr (Some ([\<lparr>name = ''a.txt'', getvalue = ''Abc''\<rparr>, \<lparr>name = ''a.txt'', getvalue = ''abd''\<rparr>],
                     [''a.txt'', ''a.txt''], [[1, 0], [0, 1]])))"
    by (simp add: process_files_def ex_decode ex_structures ex_pair_vectorize)
  have q: "process_files decode_ascii [] = ([NoFilesWarning], Inr None)"
    by (simp add: process_files_def)
  show ?thesis by (simp add: main_def f p q)
qed

end
